theory Spec2Isabelle
  imports Complex_Main
begin

section \<open>The pattern execution engine of dune-weaver (modules/core/pattern\_manager.py)\<close>

subsection \<open>Python values the engine handles\<close>

text \<open>
  A Python \<open>float\<close>: a finite value, an infinity or a NaN (\<open>float("inf")\<close> and
  \<open>float("nan")\<close> are accepted by the built-in \<open>float\<close>). The rounding of a finite
  result to a representable value is a parameter (\<open>py_round\<close> below).
\<close>

datatype pyfloat = Fin real | PInf | NInf | NaN

text \<open>\<open>a - b\<close> on floats; \<open>rnd\<close> rounds the exact difference of two finite values.\<close>

fun fsub :: "(real \<Rightarrow> pyfloat) \<Rightarrow> pyfloat \<Rightarrow> pyfloat \<Rightarrow> pyfloat" where
  "fsub rnd (Fin a) (Fin b) = rnd (a - b)"
| "fsub rnd NaN b = NaN"
| "fsub rnd a NaN = NaN"
| "fsub rnd PInf PInf = NaN"
| "fsub rnd NInf NInf = NaN"
| "fsub rnd PInf b = PInf"
| "fsub rnd NInf b = NInf"
| "fsub rnd (Fin a) PInf = NInf"
| "fsub rnd (Fin a) NInf = PInf"

fun is_finite :: "pyfloat \<Rightarrow> bool" where
  "is_finite (Fin a) = True"
| "is_finite x = False"

type_synonym coord = "pyfloat \<times> pyfloat"

datatype py_error = ValueError

text \<open>
  What opening and iterating a file does: \<open>FileNotFound\<close> is \<open>FileNotFoundError\<close> from
  \<open>open\<close>; \<open>ReadFails ls\<close> is any other exception, raised after the lines \<open>ls\<close> were
  delivered (\<open>ls = []\<close> when \<open>open\<close> itself fails); \<open>Text ls\<close> is a file read to its end.
\<close>

datatype file_read = FileNotFound | ReadFails "string list" | Text "string list"

text \<open>
  What the engine takes from its host: the file system, the built-in \<open>float\<close> on a
  token (\<open>None\<close> is \<open>ValueError\<close>) and the rounding of float arithmetic.
\<close>

record host =
  files :: "string \<Rightarrow> file_read"
  py_float :: "string \<Rightarrow> pyfloat option"
  py_round :: "real \<Rightarrow> pyfloat"

subsection \<open>String helpers: \<open>str.strip\<close>, \<open>str.split\<close>, \<open>str.startswith\<close>\<close>

text \<open>Characters are code points below 256; these are the ones \<open>str.isspace\<close> accepts.\<close>

definition isspace :: "char \<Rightarrow> bool" where
  "isspace c = ((of_char c :: nat) \<in> {9, 10, 11, 12, 13, 28, 29, 30, 31, 32, 133, 160})"

definition py_strip :: "string \<Rightarrow> string" where
  "py_strip s = rev (dropWhile isspace (rev (dropWhile isspace s)))"

text \<open>\<open>s.split()\<close>: the maximal runs of non-space characters; \<open>cur\<close> is the run being
  read, reversed.\<close>

fun split_from :: "string \<Rightarrow> string \<Rightarrow> string list" where
  "split_from cur [] = (if cur = [] then [] else [rev cur])"
| "split_from cur (c # cs) =
     (if isspace c then (if cur = [] then split_from [] cs else rev cur # split_from [] cs)
      else split_from (c # cur) cs)"

definition py_split :: "string \<Rightarrow> string list" where
  "py_split s = split_from [] s"

fun startswith :: "string \<Rightarrow> string \<Rightarrow> bool" where
  "startswith s [] = True"
| "startswith [] (p # ps) = False"
| "startswith (c # cs) (p # ps) = (c = p \<and> startswith cs ps)"

subsection \<open>PatternParser: \<open>parse_theta_rho_file\<close>\<close>

text \<open>\<open>theta, rho = map(float, line.split())\<close>: any other number of tokens, or a token
  that is no float, raises \<open>ValueError\<close>.\<close>

definition unpack2 :: "host \<Rightarrow> string list \<Rightarrow> py_error + coord" where
  "unpack2 h toks =
     (case toks of
        [a, b] \<Rightarrow>
          (case py_float h a of
             None \<Rightarrow> Inl ValueError
           | Some theta \<Rightarrow>
               (case py_float h b of
                  None \<Rightarrow> Inl ValueError
                | Some rho \<Rightarrow> Inr (theta, rho)))
      | _ \<Rightarrow> Inl ValueError)"

text \<open>The loop over the lines; \<open>coordinates\<close> is the list built so far.\<close>

fun read_lines :: "host \<Rightarrow> string list \<Rightarrow> coord list \<Rightarrow> coord list" where
  "read_lines h [] coordinates = coordinates"
| "read_lines h (l # ls) coordinates =
     (let line = py_strip l in
      if line = [] \<or> startswith line ''#'' then read_lines h ls coordinates
      else (case unpack2 h (py_split line) of
              Inr p \<Rightarrow> read_lines h ls (coordinates @ [p])
            | Inl ValueError \<Rightarrow> read_lines h ls coordinates))"

definition normalize_coordinates :: "host \<Rightarrow> coord list \<Rightarrow> coord list" where
  "normalize_coordinates h coordinates =
     (case coordinates of
        [] \<Rightarrow> coordinates
      | (first_theta, first_rho) # rest \<Rightarrow>
          map (\<lambda>(theta, rho). (fsub (py_round h) theta first_theta, rho)) coordinates)"

text \<open>Both \<open>except\<close> branches return the list as it is, without normalizing it.\<close>

definition parse_theta_rho_file :: "host \<Rightarrow> string \<Rightarrow> coord list" where
  "parse_theta_rho_file h file_path =
     (case files h file_path of
        FileNotFound \<Rightarrow> []
      | ReadFails ls \<Rightarrow> read_lines h ls []
      | Text ls \<Rightarrow> normalize_coordinates h (read_lines h ls []))"

text \<open>The specification's reading of a line: it yields a point exactly when it splits
  into two tokens that are both floats.\<close>

definition line_point :: "host \<Rightarrow> string \<Rightarrow> coord option" where
  "line_point h l =
     (case py_split l of
        [a, b] \<Rightarrow>
          (case (py_float h a, py_float h b) of
             (Some theta, Some rho) \<Rightarrow> Some (theta, rho)
           | _ \<Rightarrow> None)
      | _ \<Rightarrow> None)"

definition blank :: "string \<Rightarrow> bool" where
  "blank l = list_all isspace l"

definition comment_line :: "string \<Rightarrow> bool" where
  "comment_line l = startswith l ''#''"


subsection \<open>ExecutionState: the module's global variables\<close>

record exec_state =
  stop_requested :: bool
  pause_requested :: bool
  current_playing_file :: "string option"
  execution_progress :: "(nat \<times> nat) option"
  current_playing_index :: "nat option"
  current_playlist :: "string list option"
  is_clearing :: bool

text \<open>The calls made on the Transport (modules/serial/serial\_manager.py).\<close>

datatype call = SendBatch "coord list" | SendCommand string | ResetTheta

text \<open>
  What the engine does to the outside, in the order it does it: a Transport call made
  by \<open>run_theta_rho_file\<close>, a Transport call made by \<open>run_theta_rho_files\<close> itself (its
  last two statements), a notification of the StateReporter with the status snapshot it
  reads, a status snapshot that another thread reads with \<open>get_execution_status\<close>,
  \<open>pause_condition.notify_all()\<close>, the start of a \<open>wait_for_start_time\<close> thread and
  \<open>time.sleep\<close>.
\<close>

datatype event =
    Transport call
  | PlaylistCall call
  | MqttUpdate exec_state
  | StatusRead exec_state
  | NotifyAll
  | SpawnWaiter
  | Sleep int

text \<open>What another thread calls: \<open>stop_execution\<close>, \<open>pause_execution\<close>,
  \<open>resume_execution\<close>, the step of a \<open>wait_for_start_time\<close> thread that finds the
  window open, and \<open>get_execution_status\<close>.\<close>

datatype control = Stop | Pause | Resume | Waiter | Status

text \<open>
  The globals, the events so far and the time of day; and what the other threads do
  between the two assignments that clear \<open>current_playing_file\<close> and
  \<open>execution_progress\<close>, at each place where the run reaches them, in order (nothing,
  once the list is used up).
\<close>

record engine =
  globals :: exec_state
  trace :: "event list"
  clock :: nat
  intrusions :: "control list list"

definition emit :: "event \<Rightarrow> engine \<Rightarrow> engine" where
  "emit e g = g\<lparr>trace := trace g @ [e]\<rparr>"

definition get_execution_status :: "exec_state \<Rightarrow> exec_state" where
  "get_execution_status s = s"

text \<open>\<open>_update_mqtt_state\<close>, with a handler that is enabled.\<close>

definition update_mqtt_state :: "engine \<Rightarrow> engine" where
  "update_mqtt_state g = emit (MqttUpdate (get_execution_status (globals g))) g"

subsection \<open>Control plane: stop, pause, resume\<close>

definition stop_execution :: "engine \<Rightarrow> engine" where
  "stop_execution g =
     (let g1 = emit NotifyAll (g\<lparr>globals := (globals g)\<lparr>pause_requested := False\<rparr>\<rparr>);
          g2 = g1\<lparr>globals := (globals g1)\<lparr>
                 stop_requested := True,
                 current_playing_index := None,
                 current_playlist := None,
                 is_clearing := False,
                 current_playing_file := None,
                 execution_progress := None\<rparr>\<rparr>
      in update_mqtt_state g2)"

definition pause_execution :: "engine \<Rightarrow> engine" where
  "pause_execution g =
     update_mqtt_state (g\<lparr>globals := (globals g)\<lparr>pause_requested := True\<rparr>\<rparr>)"

definition resume_execution :: "engine \<Rightarrow> engine" where
  "resume_execution g =
     update_mqtt_state
       (emit NotifyAll (g\<lparr>globals := (globals g)\<lparr>pause_requested := False\<rparr>\<rparr>))"

subsection \<open>Scheduler\<close>

text \<open>\<open>schedule_checker\<close>, with the value \<open>now\<close> that \<open>datetime.now().time()\<close> returns.\<close>

definition schedule_checker :: "(nat \<times> nat) option \<Rightarrow> nat \<Rightarrow> engine \<Rightarrow> engine" where
  "schedule_checker schedule_hours now g =
     (case schedule_hours of
        None \<Rightarrow> g
      | Some (start_time, end_time) \<Rightarrow>
          if start_time \<le> now \<and> now < end_time
          then emit NotifyAll (g\<lparr>globals := (globals g)\<lparr>pause_requested := False\<rparr>\<rparr>)
          else emit SpawnWaiter (g\<lparr>globals := (globals g)\<lparr>pause_requested := True\<rparr>\<rparr>))"

text \<open>The step of a \<open>wait_for_start_time\<close> thread that finds the window open: it acts
  only while \<open>pause_requested\<close> is set.\<close>

definition wait_for_start_time :: "engine \<Rightarrow> engine" where
  "wait_for_start_time g =
     (if pause_requested (globals g)
      then emit NotifyAll (g\<lparr>globals := (globals g)\<lparr>pause_requested := False\<rparr>\<rparr>)
      else g)"

subsection \<open>The other threads and the device\<close>

text \<open>
  A run blocks in a Transport call, in \<open>pause_condition.wait()\<close> and in \<open>time.sleep\<close>.
  While it is blocked the other threads call the control plane; an \<open>item\<close> says what
  they do during one blocking call, how the call ends for a Transport call, and the time
  of day at which the run goes on. A run is evaluated against a finite list of items and
  is \<open>Blocked\<close> when the list ends before the run does.
\<close>

datatype reply = Returns string | Raises

record item =
  during :: "control list"
  outcome :: reply
  ends_at :: nat

fun apply_control :: "control \<Rightarrow> engine \<Rightarrow> engine" where
  "apply_control Stop g = stop_execution g"
| "apply_control Pause g = pause_execution g"
| "apply_control Resume g = resume_execution g"
| "apply_control Waiter g = wait_for_start_time g"
| "apply_control Status g = emit (StatusRead (get_execution_status (globals g))) g"

text \<open>The other threads run between two statements of the run.\<close>

definition intrude :: "engine \<Rightarrow> engine" where
  "intrude g =
     (case intrusions g of
        [] \<Rightarrow> g
      | cs # later \<Rightarrow> fold apply_control cs (g\<lparr>intrusions := later\<rparr>))"

definition pass_time :: "item \<Rightarrow> engine \<Rightarrow> engine" where
  "pass_time it g = (fold apply_control (during it) g)\<lparr>clock := ends_at it\<rparr>"

datatype step =
    Blocked engine
  | Raised engine "item list"
  | Next engine "item list"

text \<open>A Transport call whose result is not used.\<close>

fun transport :: "call \<Rightarrow> engine \<Rightarrow> item list \<Rightarrow> step" where
  "transport c g [] = Blocked (emit (Transport c) g)"
| "transport c g (it # sc) =
     (case outcome it of
        Raises \<Rightarrow> Raised (pass_time it (emit (Transport c) g)) sc
      | Returns v \<Rightarrow> Next (pass_time it (emit (Transport c) g)) sc)"

definition notify_count :: "engine \<Rightarrow> nat" where
  "notify_count g = length (filter (\<lambda>e. e = NotifyAll) (trace g))"

subsection \<open>SingleFileRunner: \<open>run_theta_rho_file\<close>\<close>

definition batch_size :: nat where
  "batch_size = 10"

text \<open>\<open>range(0, stop, step)\<close>\<close>

definition range_step :: "nat \<Rightarrow> nat \<Rightarrow> nat list" where
  "range_step stop step = map (\<lambda>k. k * step) [0..<(stop + step - 1) div step]"

definition set_progress :: "nat \<times> nat \<Rightarrow> engine \<Rightarrow> engine" where
  "set_progress p g = g\<lparr>globals := (globals g)\<lparr>execution_progress := Some p\<rparr>\<rparr>"

text \<open>
  \<open>while pause_requested: ...; _update_mqtt_state(); pause_condition.wait()\<close>, from the
  call of \<open>wait\<close> on: \<open>wait\<close> returns once \<open>notify_all\<close> was called, and the loop
  tests the flag again.
\<close>

fun waiting :: "engine \<Rightarrow> item list \<Rightarrow> step" where
  "waiting g [] = Blocked g"
| "waiting g (it # sc) =
     (let g' = pass_time it g in
      if notify_count g < notify_count g'
      then (if pause_requested (globals g') then waiting (update_mqtt_state g') sc
            else Next g' sc)
      else waiting g' sc)"

definition pause_gate :: "engine \<Rightarrow> item list \<Rightarrow> step" where
  "pause_gate g sc =
     (if pause_requested (globals g) then waiting (update_mqtt_state g) sc else Next g sc)"

text \<open>The \<open>while True\<close> loop of a batch that is not the first.\<close>

fun handshake ::
  "(nat \<times> nat) option \<Rightarrow> coord list \<Rightarrow> nat \<times> nat \<Rightarrow> engine \<Rightarrow> item list \<Rightarrow> step" where
  "handshake schedule_hours batch progress g [] =
     Blocked (emit (Transport (SendCommand ''R''))
                (schedule_checker schedule_hours (clock g) g))"
| "handshake schedule_hours batch progress g (it # sc) =
     (let g1 = schedule_checker schedule_hours (clock g) g;
          g2 = pass_time it (emit (Transport (SendCommand ''R'')) g1)
      in case outcome it of
           Raises \<Rightarrow> Raised g2 sc
         | Returns response \<Rightarrow>
             if response = ''R''
             then (case transport (SendBatch batch) g2 sc of
                     Next g3 sc3 \<Rightarrow> Next (set_progress progress g3) sc3
                   | Raised g3 sc3 \<Rightarrow> Raised g3 sc3
                   | Blocked g3 \<Rightarrow> Blocked g3)
             else handshake schedule_hours batch progress g2 sc)"

text \<open>The \<open>for i in range(0, total_coordinates, batch_size)\<close> loop; \<open>Next\<close> is its end,
  by exhaustion or by \<open>break\<close>.\<close>

fun send_batches ::
  "(nat \<times> nat) option \<Rightarrow> coord list \<Rightarrow> nat list \<Rightarrow> engine \<Rightarrow> item list \<Rightarrow> step" where
  "send_batches schedule_hours coordinates [] g sc = Next g sc"
| "send_batches schedule_hours coordinates (i # rest) g sc =
     (if stop_requested (globals g) then Next g sc
      else
        (case pause_gate g sc of
           Blocked b \<Rightarrow> Blocked b
         | Raised b sc1 \<Rightarrow> Raised b sc1
         | Next g1 sc1 \<Rightarrow>
             (let batch = take batch_size (drop i coordinates);
                  total_coordinates = length coordinates
              in if i = 0
                 then (case transport (SendBatch batch) g1 sc1 of
                         Next g2 sc2 \<Rightarrow>
                           send_batches schedule_hours coordinates rest
                             (set_progress (i + batch_size, total_coordinates) g2) sc2
                       | Raised g2 sc2 \<Rightarrow> Raised g2 sc2
                       | Blocked g2 \<Rightarrow> Blocked g2)
                 else (case handshake schedule_hours batch
                              (i + batch_size, total_coordinates) g1 sc1 of
                         Next g2 sc2 \<Rightarrow> send_batches schedule_hours coordinates rest g2 sc2
                       | Raised g2 sc2 \<Rightarrow> Raised g2 sc2
                       | Blocked g2 \<Rightarrow> Blocked g2))))"

text \<open>The body of the \<open>try\<close>.\<close>

definition stream_pattern ::
  "(nat \<times> nat) option \<Rightarrow> coord list \<Rightarrow> engine \<Rightarrow> item list \<Rightarrow> step" where
  "stream_pattern schedule_hours coordinates g sc =
     (let total_coordinates = length coordinates;
          g1 = set_progress (0, total_coordinates) g
      in case send_batches schedule_hours coordinates
                (range_step total_coordinates batch_size) g1 sc of
           Next g2 sc2 \<Rightarrow>
             (case transport ResetTheta g2 sc2 of
                Next g3 sc3 \<Rightarrow> transport (SendCommand ''FINISHED'') g3 sc3
              | Raised g3 sc3 \<Rightarrow> Raised g3 sc3
              | Blocked g3 \<Rightarrow> Blocked g3)
         | Raised g2 sc2 \<Rightarrow> Raised g2 sc2
         | Blocked g2 \<Rightarrow> Blocked g2)"

text \<open>
  \<open>current_playing_file = None\<close>, \<open>execution_progress = None\<close>,
  \<open>_update_mqtt_state()\<close>: two assignments with no lock, so that another thread can
  read or report the globals between them.
\<close>

definition clear_current :: "engine \<Rightarrow> engine" where
  "clear_current g =
     (let g1 = g\<lparr>globals := (globals g)\<lparr>current_playing_file := None\<rparr>\<rparr>;
          g2 = intrude g1;
          g3 = g2\<lparr>globals := (globals g2)\<lparr>execution_progress := None\<rparr>\<rparr>
      in update_mqtt_state g3)"

text \<open>
  \<open>except Exception\<close> logs the error; \<open>finally\<close> clears the state on every way out of
  the \<open>try\<close>. The three assignments at the start are one update: a thread that reads
  the globals between them finds the current file either as it was before the run or
  already set, with the progress of before the run.
\<close>

definition run_theta_rho_file ::
  "host \<Rightarrow> string \<Rightarrow> (nat \<times> nat) option \<Rightarrow> engine \<Rightarrow> item list \<Rightarrow> step" where
  "run_theta_rho_file h file_path schedule_hours g sc =
     (let g1 = update_mqtt_state
                 (g\<lparr>globals := (globals g)\<lparr>stop_requested := False,
                                             current_playing_file := Some file_path,
                                             execution_progress := Some (0, 0)\<rparr>\<rparr>);
          coordinates = parse_theta_rho_file h file_path;
          total_coordinates = length coordinates
      in if total_coordinates < 2 then Next (clear_current g1) sc
         else (case stream_pattern schedule_hours coordinates g1 sc of
                 Next g2 sc2 \<Rightarrow> Next (clear_current g2) sc2
               | Raised g2 sc2 \<Rightarrow> Next (clear_current g2) sc2
               | Blocked g2 \<Rightarrow> Blocked g2))"


subsection \<open>PlaylistRunner: \<open>run_theta_rho_files\<close>\<close>

definition CLEAR_PATTERNS :: "(string \<times> string) list" where
  "CLEAR_PATTERNS =
     [(''clear_from_in'', ''./patterns/clear_from_in.thr''),
      (''clear_from_out'', ''./patterns/clear_from_out.thr''),
      (''clear_sideway'', ''./patterns/clear_sideway.thr'')]"

text \<open>\<open>choice\<close> is the index that \<open>random.choice\<close> draws.\<close>

definition get_clear_pattern_file :: "nat \<Rightarrow> string \<Rightarrow> string" where
  "get_clear_pattern_file choice pattern_name =
     (if pattern_name = ''random''
      then map snd CLEAR_PATTERNS ! (choice mod length CLEAR_PATTERNS)
      else (case map_of CLEAR_PATTERNS pattern_name of
              Some f \<Rightarrow> f
            | None \<Rightarrow> ''./patterns/clear_from_in.thr''))"

text \<open>The random draws of a playlist run: the order that the \<open>k\<close>-th call of
  \<open>random.shuffle\<close> leaves, and the index that \<open>random.choice\<close> draws in pass \<open>k\<close> at
  playlist index \<open>idx\<close>.\<close>

record chance =
  shuffle_at :: "nat \<Rightarrow> string list \<Rightarrow> string list"
  choice_at :: "nat \<Rightarrow> nat \<Rightarrow> nat"

text \<open>\<open>time.sleep(pause_time)\<close>\<close>

fun sleep :: "int \<Rightarrow> engine \<Rightarrow> item list \<Rightarrow> step" where
  "sleep pause_time g [] = Blocked (emit (Sleep pause_time) g)"
| "sleep pause_time g (it # sc) = Next (pass_time it (emit (Sleep pause_time) g)) sc"

text \<open>How one pass over the playlist ends: blocked, by one of the \<open>return\<close> statements
  that follow a test of \<open>stop_requested\<close>, or at the end of the \<open>for\<close> loop.\<close>

datatype pass =
    PassBlocked engine
  | StopReturn engine "item list"
  | PassDone engine "item list"

text \<open>
  The body of \<open>for idx, path in enumerate(file_paths)\<close>; \<open>n\<close> is \<open>len(file_paths)\<close>
  and \<open>choice\<close> the draw of this iteration. The second test of \<open>stop_requested\<close>, inside
  \<open>if clear_pattern:\<close>, follows the first one with no blocking call between them and
  has no branch here. \<open>run_theta_rho_file\<close> catches every exception of its \<open>try\<close> and
  \<open>time.sleep\<close> raises none, so the \<open>Raised\<close> branches below are never taken.
\<close>

definition play_item ::
  "host \<Rightarrow> nat \<Rightarrow> int \<Rightarrow> string option \<Rightarrow> (nat \<times> nat) option \<Rightarrow> nat
     \<Rightarrow> nat \<times> string \<Rightarrow> engine \<Rightarrow> item list \<Rightarrow> pass" where
  "play_item h choice pause_time clear_pattern schedule_hours n entry g sc =
     (case entry of (idx, path) \<Rightarrow>
      let g1 = schedule_checker schedule_hours (clock g)
                 (g\<lparr>globals := (globals g)\<lparr>current_playing_index := Some idx\<rparr>\<rparr>)
      in if stop_requested (globals g1) then StopReturn g1 sc
         else
           (case (case clear_pattern of
                    None \<Rightarrow> Next g1 sc
                  | Some pattern_name \<Rightarrow>
                      if pattern_name = [] then Next g1 sc
                      else
                        (case run_theta_rho_file h
                                (get_clear_pattern_file choice pattern_name) schedule_hours
                                (g1\<lparr>globals := (globals g1)\<lparr>is_clearing := True\<rparr>\<rparr>) sc of
                           Next g2 sc2 \<Rightarrow>
                             Next (g2\<lparr>globals := (globals g2)\<lparr>is_clearing := False\<rparr>\<rparr>) sc2
                         | Raised g2 sc2 \<Rightarrow> Raised g2 sc2
                         | Blocked g2 \<Rightarrow> Blocked g2)) of
              Blocked b \<Rightarrow> PassBlocked b
            | Raised b sc3 \<Rightarrow> PassBlocked b
            | Next g3 sc3 \<Rightarrow>
                (case (if \<not> stop_requested (globals g3)
                       then run_theta_rho_file h path schedule_hours g3 sc3
                       else Next g3 sc3) of
                   Blocked b \<Rightarrow> PassBlocked b
                 | Raised b sc4 \<Rightarrow> PassBlocked b
                 | Next g4 sc4 \<Rightarrow>
                     if int idx < int n - 1
                     then (if stop_requested (globals g4) then StopReturn g4 sc4
                           else if pause_time > 0
                           then (case sleep pause_time g4 sc4 of
                                   Next g5 sc5 \<Rightarrow> PassDone g5 sc5
                                 | Raised g5 sc5 \<Rightarrow> PassBlocked g5
                                 | Blocked g5 \<Rightarrow> PassBlocked g5)
                           else PassDone g4 sc4)
                     else PassDone g4 sc4)))"

fun play_items ::
  "host \<Rightarrow> (nat \<Rightarrow> nat) \<Rightarrow> int \<Rightarrow> string option \<Rightarrow> (nat \<times> nat) option \<Rightarrow> nat
     \<Rightarrow> (nat \<times> string) list \<Rightarrow> engine \<Rightarrow> item list \<Rightarrow> pass" where
  "play_items h choices pause_time clear_pattern schedule_hours n [] g sc = PassDone g sc"
| "play_items h choices pause_time clear_pattern schedule_hours n (entry # rest) g sc =
     (case play_item h (choices (fst entry)) pause_time clear_pattern schedule_hours n
             entry g sc of
        PassDone g1 sc1 \<Rightarrow>
          play_items h choices pause_time clear_pattern schedule_hours n rest g1 sc1
      | StopReturn g1 sc1 \<Rightarrow> StopReturn g1 sc1
      | PassBlocked g1 \<Rightarrow> PassBlocked g1)"

text \<open>A Transport call that \<open>run_theta_rho_files\<close> makes itself.\<close>

fun playlist_transport :: "call \<Rightarrow> engine \<Rightarrow> item list \<Rightarrow> step" where
  "playlist_transport c g [] = Blocked (emit (PlaylistCall c) g)"
| "playlist_transport c g (it # sc) =
     (case outcome it of
        Raises \<Rightarrow> Raised (pass_time it (emit (PlaylistCall c) g)) sc
      | Returns v \<Rightarrow> Next (pass_time it (emit (PlaylistCall c) g)) sc)"

text \<open>How a playlist run ends. \<open>Completed\<close> is the end of the function body, \<open>Stopped\<close>
  one of its \<open>return\<close> statements; \<open>Failed\<close> is an exception that leaves the function,
  \<open>StillLooping\<close> a run whose \<open>while True\<close> loop has more passes to do than were
  evaluated.\<close>

datatype exit_kind = Completed | Stopped

datatype playlist_result =
    Waiting engine
  | Failed engine "item list"
  | Returned exit_kind engine "item list"
  | StillLooping engine "item list"

text \<open>The \<open>while True\<close> loop, for at most \<open>passes\<close> passes; \<open>k\<close> counts the passes
  done. \<open>random.shuffle\<close> changes the list in place, and \<open>current_playlist\<close> is the
  same list unless \<open>stop_execution\<close> has set it to \<open>None\<close>.\<close>

fun playlist_loop ::
  "nat \<Rightarrow> nat \<Rightarrow> host \<Rightarrow> chance \<Rightarrow> string list \<Rightarrow> int \<Rightarrow> string option \<Rightarrow> string
     \<Rightarrow> bool \<Rightarrow> (nat \<times> nat) option \<Rightarrow> engine \<Rightarrow> item list \<Rightarrow> playlist_result" where
  "playlist_loop 0 k h ch file_paths pause_time clear_pattern run_mode shuffle
     schedule_hours g sc = StillLooping g sc"
| "playlist_loop (Suc passes) k h ch file_paths pause_time clear_pattern run_mode shuffle
     schedule_hours g sc =
     (case play_items h (choice_at ch k) pause_time clear_pattern schedule_hours
             (length file_paths) (List.enumerate 0 file_paths) g sc of
        PassBlocked b \<Rightarrow> Waiting b
      | StopReturn g1 sc1 \<Rightarrow> Returned Stopped g1 sc1
      | PassDone g1 sc1 \<Rightarrow>
          if run_mode = ''indefinite''
          then (case (if pause_time > 0 then sleep pause_time g1 sc1 else Next g1 sc1) of
                  Blocked b \<Rightarrow> Waiting b
                | Raised b sc2 \<Rightarrow> Waiting b
                | Next g2 sc2 \<Rightarrow>
                    if shuffle
                    then (let file_paths' = shuffle_at ch (Suc k) file_paths;
                              g3 = g2\<lparr>globals := (globals g2)\<lparr>current_playlist :=
                                     map_option (\<lambda>l. file_paths')
                                       (current_playlist (globals g2))\<rparr>\<rparr>
                          in playlist_loop passes (Suc k) h ch file_paths' pause_time
                               clear_pattern run_mode shuffle schedule_hours g3 sc2)
                    else playlist_loop passes (Suc k) h ch file_paths pause_time
                           clear_pattern run_mode shuffle schedule_hours g2 sc2)
          else (case playlist_transport ResetTheta g1 sc1 of
                  Blocked b \<Rightarrow> Waiting b
                | Raised b sc2 \<Rightarrow> Failed b sc2
                | Next g2 sc2 \<Rightarrow>
                    (case playlist_transport (SendCommand ''FINISHED'') g2 sc2 of
                       Blocked b \<Rightarrow> Waiting b
                     | Raised b sc3 \<Rightarrow> Failed b sc3
                     | Next g3 sc3 \<Rightarrow> Returned Completed g3 sc3)))"

definition run_theta_rho_files ::
  "nat \<Rightarrow> host \<Rightarrow> chance \<Rightarrow> string list \<Rightarrow> int \<Rightarrow> string option \<Rightarrow> string \<Rightarrow> bool
     \<Rightarrow> (nat \<times> nat) option \<Rightarrow> engine \<Rightarrow> item list \<Rightarrow> playlist_result" where
  "run_theta_rho_files passes h ch file_paths pause_time clear_pattern run_mode shuffle
     schedule_hours g sc =
     (let file_paths' = (if shuffle then shuffle_at ch 0 file_paths else file_paths);
          g1 = g\<lparr>globals := (globals g)\<lparr>stop_requested := False,
                                          current_playlist := Some file_paths'\<rparr>\<rparr>
      in playlist_loop passes 0 h ch file_paths' pause_time clear_pattern run_mode shuffle
           schedule_hours g1 sc)"

subsection \<open>A concrete host and observers\<close>

text \<open>
  A host to evaluate the engine on: \<open>sample_float\<close> reads the tokens \<open>inf\<close>, \<open>nan\<close> and
  the decimal integers with an optional minus sign, as the built-in \<open>float\<close> does, and
  rejects every other token; the differences of such values are exact.
\<close>

fun digits_value :: "string \<Rightarrow> nat \<Rightarrow> nat option" where
  "digits_value [] acc = Some acc"
| "digits_value (c # cs) acc =
     (if 48 \<le> (of_char c :: nat) \<and> (of_char c :: nat) \<le> 57
      then digits_value cs (10 * acc + (of_char c - 48))
      else None)"

definition sample_float :: "string \<Rightarrow> pyfloat option" where
  "sample_float s =
     (if s = ''inf'' then Some PInf
      else if s = ''nan'' then Some NaN
      else (case s of
              [] \<Rightarrow> None
            | c # cs \<Rightarrow>
                if c = CHR ''-''
                then (if cs = [] then None
                      else map_option (\<lambda>n. Fin (- real n)) (digits_value cs 0))
                else map_option (\<lambda>n. Fin (real n)) (digits_value s 0)))"

text \<open>The lines of a file as iteration delivers them, each with its newline.\<close>

definition with_newlines :: "string list \<Rightarrow> string list" where
  "with_newlines ls = map (\<lambda>l. l @ [char_of (10 :: nat)]) ls"

definition sample_files :: "string \<Rightarrow> file_read" where
  "sample_files file_path =
     (if file_path = ''inf.thr'' then Text (with_newlines [''inf 1''])
      else if file_path = ''cut.thr'' then ReadFails (with_newlines [''5 1''])
      else if file_path = ''locked.thr'' then ReadFails []
      else if file_path = ''torn.thr'' then ReadFails (with_newlines [''5 1'', ''6 1''])
      else if file_path = ''mixed.thr''
      then Text (with_newlines
             [''# theta rho'', ''5 1'', ''junk'', [], ''6 0 9'', ''  7 0  '', ''x 1'', ''9 1''])
      else if file_path = ''five.thr''
      then Text (with_newlines
             [''0 1'', ''1 1'', ''2 1'', ''3 1'', ''4 1''])
      else if file_path = ''twelve.thr''
      then Text (with_newlines
             [''0 1'', ''1 1'', ''2 1'', ''3 1'', ''4 1'', ''5 1'', ''6 1'', ''7 1'',
              ''8 1'', ''9 1'', ''10 1'', ''11 1''])
      else if file_path = ''long.thr''
      then Text (with_newlines
             [''0 1'', ''1 1'', ''2 1'', ''3 1'', ''4 1'', ''5 1'', ''6 1'', ''7 1'',
              ''8 1'', ''9 1'', ''10 1'', ''11 1'', ''12 1'', ''13 1'', ''14 1'', ''15 1'',
              ''16 1'', ''17 1'', ''18 1'', ''19 1'', ''20 1'', ''21 1'', ''22 1'',
              ''23 1'', ''24 1''])
      else FileNotFound)"

definition sample_host :: host where
  "sample_host = \<lparr>files = sample_files, py_float = sample_float, py_round = Fin\<rparr>"

definition idle :: exec_state where
  "idle = \<lparr>stop_requested = False, pause_requested = False, current_playing_file = None,
           execution_progress = None, current_playing_index = None,
           current_playlist = None, is_clearing = False\<rparr>"

definition fresh :: engine where
  "fresh = \<lparr>globals = idle, trace = [], clock = 0, intrusions = []\<rparr>"

text \<open>An item during which no other thread acts and the call returns \<open>v\<close>.\<close>

definition quiet :: "string \<Rightarrow> item" where
  "quiet v = \<lparr>during = [], outcome = Returns v, ends_at = 0\<rparr>"

text \<open>The Transport calls of a trace, in order, and those among them that
  \<open>run_theta_rho_files\<close> made itself.\<close>

fun calls :: "event list \<Rightarrow> call list" where
  "calls [] = []"
| "calls (Transport c # es) = c # calls es"
| "calls (PlaylistCall c # es) = c # calls es"
| "calls (e # es) = calls es"

fun own_calls :: "event list \<Rightarrow> call list" where
  "own_calls [] = []"
| "own_calls (PlaylistCall c # es) = c # own_calls es"
| "own_calls (e # es) = own_calls es"

text \<open>The invariant of ExecutionState: progress is set only while a file is.\<close>

definition progress_inv :: "exec_state \<Rightarrow> bool" where
  "progress_inv s = (execution_progress s = None \<or> current_playing_file s \<noteq> None)"

text \<open>An item during which another thread calls \<open>stop_execution\<close> and the call
  returns \<open>v\<close>.\<close>

definition stopping :: "string \<Rightarrow> item" where
  "stopping v = \<lparr>during = [Stop], outcome = Returns v, ends_at = 0\<rparr>"

text \<open>What can be observed of a run: the status snapshots that the StateReporter was
  given and those that other threads read, and the globals when the run is blocked or
  has returned.\<close>

fun snapshot_ok :: "event \<Rightarrow> bool" where
  "snapshot_ok (MqttUpdate s) = progress_inv s"
| "snapshot_ok (StatusRead s) = progress_inv s"
| "snapshot_ok e = True"


text \<open>No other thread calls \<open>stop_execution\<close> during the items.\<close>

definition no_stop :: "item list \<Rightarrow> bool" where
  "no_stop sc = list_all (\<lambda>it. Stop \<notin> set (during it)) sc"

text \<open>While a file is being streamed: a current file is set, every snapshot given out
  or read so far satisfies the invariant, and no other thread is going to run between
  the two assignments that clear file and progress.\<close>

definition streaming :: "engine \<Rightarrow> bool" where
  "streaming g =
     (current_playing_file (globals g) \<noteq> None \<and> list_all snapshot_ok (trace g)
      \<and> intrusions g = [])"


text \<open>The engine that a step and a pass leave.\<close>

fun engine_of :: "step \<Rightarrow> engine" where
  "engine_of (Blocked g) = g"
| "engine_of (Raised g sc) = g"
| "engine_of (Next g sc) = g"

fun pass_engine :: "pass \<Rightarrow> engine" where
  "pass_engine (PassBlocked g) = g"
| "pass_engine (StopReturn g sc) = g"
| "pass_engine (PassDone g sc) = g"

text \<open>Draws that leave every list in its order and pick the first preset.\<close>

definition no_chance :: chance where
  "no_chance = \<lparr>shuffle_at = (\<lambda>k file_paths. file_paths), choice_at = (\<lambda>k idx. 0)\<rparr>"

text \<open>An item during which another thread reads the status and the call returns
  \<open>v\<close>.\<close>

definition watched :: "string \<Rightarrow> item" where
  "watched v = \<lparr>during = [Status], outcome = Returns v, ends_at = 0\<rparr>"

text \<open>The poll of the handshake.\<close>

abbreviation (input) Poll :: call where
  "Poll \<equiv> SendCommand ''R''"

section \<open>Properties\<close>

subsection \<open>Splitting and stripping lines\<close>

lemma split_from_spaces:
  "list_all isspace ws \<Longrightarrow> split_from cur ws = (if cur = [] then [] else [rev cur])"
  by (induction ws arbitrary: cur) auto

lemma split_from_trailing:
  "list_all isspace ws \<Longrightarrow> split_from cur (s @ ws) = split_from cur s"
proof (induction s arbitrary: cur)
  case Nil
  then show ?case by (simp add: split_from_spaces)
next
  case (Cons c s)
  then show ?case by simp
qed

lemma split_from_leading: "split_from [] (dropWhile isspace s) = split_from [] s"
  by (induction s) auto

lemma strip_decompose:
  "\<exists>ws. list_all isspace ws \<and> dropWhile isspace s = py_strip s @ ws"
proof -
  let ?t = "dropWhile isspace s"
  have "rev (dropWhile isspace (rev ?t)) @ rev (takeWhile isspace (rev ?t)) = ?t"
    by (metis rev_append rev_rev_ident takeWhile_dropWhile_id)
  moreover have "list_all isspace (rev (takeWhile isspace (rev ?t)))"
    by (auto simp: list_all_iff dest: set_takeWhileD)
  ultimately show ?thesis unfolding py_strip_def by metis
qed

lemma py_split_strip: "py_split (py_strip l) = py_split l"
proof -
  obtain ws where ws: "list_all isspace ws" "dropWhile isspace l = py_strip l @ ws"
    using strip_decompose by blast
  have "py_split l = split_from [] (dropWhile isspace l)"
    by (simp add: py_split_def split_from_leading)
  also have "\<dots> = split_from [] (py_strip l)"
    using ws by (simp add: split_from_trailing)
  finally show ?thesis by (simp add: py_split_def)
qed

lemma split_from_cur_hd:
  "cur \<noteq> [] \<Longrightarrow> \<exists>t ts. split_from cur s = (rev cur @ t) # ts"
proof (induction s arbitrary: cur)
  case Nil
  then show ?case by simp
next
  case (Cons c s)
  show ?case
  proof (cases "isspace c")
    case True
    with Cons.prems show ?thesis by simp
  next
    case False
    obtain t ts where "split_from (c # cur) s = (rev (c # cur) @ t) # ts"
      using Cons.IH [of "c # cur"] by auto
    with False show ?thesis by simp
  qed
qed

lemma py_split_first:
  assumes "py_split l = a # ts"
  shows "\<exists>c cs t. \<not> isspace c \<and> dropWhile isspace l = c # cs \<and> a = c # t"
proof (cases "dropWhile isspace l")
  case Nil
  then have "list_all isspace l" by (simp add: list_all_iff)
  then have "py_split l = []"
    by (simp add: py_split_def split_from_spaces)
  with assms show ?thesis by simp
next
  case (Cons c cs)
  then have c: "\<not> isspace c" by (metis hd_dropWhile list.distinct(1) list.sel(1))
  have "py_split l = split_from [c] cs"
    using split_from_leading [of l] Cons c by (simp add: py_split_def)
  moreover obtain t ts' where "split_from [c] cs = (rev [c] @ t) # ts'"
    using split_from_cur_hd [of "[c]" cs] by auto
  ultimately show ?thesis using assms Cons c by auto
qed

lemma strip_hd:
  assumes "\<not> isspace c" "dropWhile isspace l = c # cs"
  shows "\<exists>r. py_strip l = c # r"
proof -
  have "dropWhile isspace (rev cs @ [c]) = dropWhile isspace (rev cs) @ [c]"
    using assms(1) by (induction "rev cs") (auto simp: dropWhile_append3)
  then show ?thesis using assms(2) by (simp add: py_strip_def)
qed


lemma unpack2_line_point:
  "unpack2 h (py_split l) = (case line_point h l of None \<Rightarrow> Inl ValueError | Some p \<Rightarrow> Inr p)"
  by (simp add: unpack2_def line_point_def split: list.splits option.splits)

lemma blank_line_point: "py_strip l = [] \<Longrightarrow> line_point h l = None"
proof -
  assume "py_strip l = []"
  then have "py_split l = py_split []" using py_split_strip [of l] by simp
  then show ?thesis by (simp add: line_point_def py_split_def)
qed

lemma hash_line_point:
  assumes rej: "\<And>s. py_float h (CHR ''#'' # s) = None"
    and hash: "startswith (py_strip l) ''#''"
  shows "line_point h l = None"
proof -
  obtain r where r: "py_strip l = CHR ''#'' # r"
    using hash by (cases "py_strip l") auto
  have "\<not> isspace CHR ''#''" by (simp add: isspace_def)
  then have "py_split (py_strip l) = split_from ''#'' r"
    using r by (simp add: py_split_def)
  moreover obtain t ts where "split_from ''#'' r = (rev ''#'' @ t) # ts"
    using split_from_cur_hd [of "''#''" r] by auto
  ultimately have "py_split l = (CHR ''#'' # t) # ts"
    using py_split_strip [of l] by simp
  then show ?thesis
    by (simp add: line_point_def rej split: list.splits)
qed

lemma read_lines_map_filter:
  assumes rej: "\<And>s. py_float h (CHR ''#'' # s) = None"
  shows "read_lines h ls acc = acc @ List.map_filter (line_point h) ls"
proof (induction ls arbitrary: acc)
  case Nil
  show ?case by (simp add: List.map_filter_simps)
next
  case (Cons l ls)
  show ?case
  proof (cases "py_strip l = [] \<or> startswith (py_strip l) ''#''")
    case True
    then have "line_point h l = None"
      using blank_line_point hash_line_point [OF rej] by blast
    with True Cons.IH show ?thesis by (simp add: List.map_filter_simps)
  next
    case False
    then show ?thesis
      using Cons.IH
      by (simp add: List.map_filter_simps py_split_strip unpack2_line_point
               split: option.splits py_error.splits)
  qed
qed

lemma blank_no_point: "blank l \<Longrightarrow> line_point h l = None"
  by (simp add: blank_def line_point_def py_split_def split_from_spaces)

lemma comment_no_point:
  assumes rej: "\<And>s. py_float h (CHR ''#'' # s) = None"
    and c: "comment_line l"
  shows "line_point h l = None"
proof -
  obtain r where r: "l = CHR ''#'' # r"
    using c by (cases l) (auto simp: comment_line_def)
  have ns: "\<not> isspace CHR ''#''" by (simp add: isspace_def)
  obtain t ts where "split_from ''#'' r = (rev ''#'' @ t) # ts"
    using split_from_cur_hd [of "''#''" r] by auto
  then have "py_split l = (CHR ''#'' # t) # ts"
    using r ns by (simp add: py_split_def)
  then show ?thesis
    by (simp add: line_point_def rej split: list.splits)
qed

lemma length_normalize: "length (normalize_coordinates h cs) = length cs"
  by (simp add: normalize_coordinates_def split: list.splits prod.splits)

lemma snd_normalize: "map snd (normalize_coordinates h cs) = map snd cs"
  by (auto simp: normalize_coordinates_def split: list.splits prod.splits)

lemma fst_normalize:
  "cs \<noteq> [] \<Longrightarrow> map fst (normalize_coordinates h cs)
     = map (\<lambda>theta. fsub (py_round h) theta (fst (hd cs))) (map fst cs)"
  by (auto simp: normalize_coordinates_def split: list.splits prod.splits)

lemma fsub_self: "is_finite x \<Longrightarrow> rnd 0 = Fin 0 \<Longrightarrow> fsub rnd x x = Fin 0"
  by (cases x) auto

subsection \<open>PatternParser\<close>

lemmas sample_parse_defs =
  parse_theta_rho_file_def sample_host_def sample_files_def with_newlines_def
  py_strip_def py_split_def isspace_def unpack2_def sample_float_def
  normalize_coordinates_def

lemma sample_rejects_hash: "py_float sample_host (CHR ''#'' # s) = None"
  by (simp add: sample_host_def sample_float_def)

text \<open>
  C5, amended. For every file that is read to its end and whose parse yields at least one
  point, when the first theta read from the file is finite: point 0 of the returned
  pattern has theta exactly 0, every theta is the theta read from the file minus the
  first one, every rho is the rho read from the file, and the number and the order of
  the points are those of the points read. (The difference of a finite float with itself
  is exactly 0: \<open>py_round h 0 = Fin 0\<close>.)
\<close>

theorem normalization_of_complete_finite:
  assumes "files h file_path = Text ls"
    and "py_round h 0 = Fin 0"
    and "read_lines h ls [] \<noteq> []"
    and "is_finite (fst (hd (read_lines h ls [])))"
  shows "fst (parse_theta_rho_file h file_path ! 0) = Fin 0
    \<and> map fst (parse_theta_rho_file h file_path)
        = map (\<lambda>theta. fsub (py_round h) theta (fst (hd (read_lines h ls []))))
            (map fst (read_lines h ls []))
    \<and> map snd (parse_theta_rho_file h file_path) = map snd (read_lines h ls [])
    \<and> length (parse_theta_rho_file h file_path) = length (read_lines h ls [])"
proof -
  let ?raw = "read_lines h ls []"
  have p: "parse_theta_rho_file h file_path = normalize_coordinates h ?raw"
    using assms(1) by (simp add: parse_theta_rho_file_def)
  have thetas: "map fst (normalize_coordinates h ?raw)
      = map (\<lambda>theta. fsub (py_round h) theta (fst (hd ?raw))) (map fst ?raw)"
    using assms(3) by (rule fst_normalize)
  have len: "length (normalize_coordinates h ?raw) = length ?raw"
    by (rule length_normalize)
  have "fst (normalize_coordinates h ?raw ! 0) = map fst (normalize_coordinates h ?raw) ! 0"
    using assms(3) len by (simp add: nth_map)
  also have "\<dots> = fsub (py_round h) (fst (hd ?raw)) (fst (hd ?raw))"
    using assms(3) by (simp add: thetas hd_conv_nth nth_map)
  also have "\<dots> = Fin 0"
    using assms(2,4) by (rule fsub_self [rotated])
  finally show ?thesis
    using p thetas len by (simp add: snd_normalize)
qed

text \<open>The file \<open>mixed.thr\<close> has the raw thetas 5, 7, 9 and parses to 0, 2, 4.\<close>

theorem normalization_of_complete_finite_witness:
  "parse_theta_rho_file sample_host ''mixed.thr'' = [(Fin 0, Fin 1), (Fin 2, Fin 0), (Fin 4, Fin 1)]
   \<and> fst (parse_theta_rho_file sample_host ''mixed.thr'' ! 0) = Fin 0
   \<and> map snd (parse_theta_rho_file sample_host ''mixed.thr'') = [Fin 1, Fin 0, Fin 1]"
proof -
  let ?ls = "with_newlines
    [''# theta rho'', ''5 1'', ''junk'', [], ''6 0 9'', ''  7 0  '', ''x 1'', ''9 1'']"
  have f: "files sample_host ''mixed.thr'' = Text ?ls"
    by (simp add: sample_host_def sample_files_def)
  have r: "py_round sample_host 0 = Fin 0" by (simp add: sample_host_def)
  have raw: "read_lines sample_host ?ls [] = [(Fin 5, Fin 1), (Fin 7, Fin 0), (Fin 9, Fin 1)]"
    by (simp add: sample_parse_defs)
  have ne: "read_lines sample_host ?ls [] \<noteq> []" by (simp add: raw)
  have fin: "is_finite (fst (hd (read_lines sample_host ?ls [])))" by (simp add: raw)
  have v: "parse_theta_rho_file sample_host ''mixed.thr''
      = [(Fin 0, Fin 1), (Fin 2, Fin 0), (Fin 4, Fin 1)]"
    by (simp add: sample_parse_defs)
  show ?thesis
    using normalization_of_complete_finite [OF f r ne fin] by (simp add: raw v)
qed

text \<open>
  C5 as stated fails: a first line \<open>inf 1\<close> is a point whose theta is infinite, and
  \<open>inf - inf\<close> is NaN, so point 0 has theta NaN; and a file whose reading fails after
  the line \<open>5 1\<close> is returned by the \<open>except\<close> branch as it was read, with theta 5.
\<close>

theorem normalization_counterexample:
  "parse_theta_rho_file sample_host ''inf.thr'' = [(NaN, Fin 1)]
   \<and> fst (parse_theta_rho_file sample_host ''inf.thr'' ! 0) \<noteq> Fin 0
   \<and> parse_theta_rho_file sample_host ''cut.thr'' = [(Fin 5, Fin 1)]
   \<and> fst (parse_theta_rho_file sample_host ''cut.thr'' ! 0) \<noteq> Fin 0"
  by (simp add: sample_parse_defs)

text \<open>
  C6. For every file read to its end, the parse is the normalization of the points of
  the lines that split into exactly two float tokens, in their order in the file, so
  it has exactly as many points as there are such lines, with their rho values in that
  order; blank lines and lines starting with \<open>#\<close> are not such lines. The result is a
  list on every input: \<open>ValueError\<close> is caught for each line. (No token starting with
  \<open>#\<close> is a float.)
\<close>

theorem malformed_line_tolerance:
  assumes "files h file_path = Text ls"
    and "\<And>s. py_float h (CHR ''#'' # s) = None"
  shows "parse_theta_rho_file h file_path
           = normalize_coordinates h (List.map_filter (line_point h) ls)
    \<and> length (parse_theta_rho_file h file_path)
        = length (filter (\<lambda>l. line_point h l \<noteq> None) ls)
    \<and> map snd (parse_theta_rho_file h file_path)
        = map snd (List.map_filter (line_point h) ls)
    \<and> list_all (\<lambda>l. line_point h l = None) (filter (\<lambda>l. blank l \<or> comment_line l) ls)"
proof -
  have raw: "read_lines h ls [] = List.map_filter (line_point h) ls"
    using read_lines_map_filter [OF assms(2), of ls "[]"] by simp
  have p: "parse_theta_rho_file h file_path
      = normalize_coordinates h (List.map_filter (line_point h) ls)"
    using assms(1) raw by (simp add: parse_theta_rho_file_def)
  have "length (List.map_filter (line_point h) ls)
      = length (filter (\<lambda>l. line_point h l \<noteq> None) ls)"
    by (simp add: List.map_filter_def)
  moreover have "list_all (\<lambda>l. line_point h l = None)
      (filter (\<lambda>l. blank l \<or> comment_line l) ls)"
    using blank_no_point comment_no_point [OF assms(2)]
    by (auto simp: list_all_iff)
  ultimately show ?thesis
    using p by (simp add: length_normalize snd_normalize)
qed

text \<open>\<open>mixed.thr\<close>: three valid lines among a comment, a blank line and three
  malformed lines.\<close>

theorem malformed_line_tolerance_witness:
  "length (parse_theta_rho_file sample_host ''mixed.thr'') = 3
   \<and> map snd (parse_theta_rho_file sample_host ''mixed.thr'') = [Fin 1, Fin 0, Fin 1]
   \<and> List.map_filter (line_point sample_host)
        (with_newlines
          [''# theta rho'', ''5 1'', ''junk'', [], ''6 0 9'', ''  7 0  '', ''x 1'', ''9 1''])
      = [(Fin 5, Fin 1), (Fin 7, Fin 0), (Fin 9, Fin 1)]"
proof -
  let ?ls = "with_newlines
    [''# theta rho'', ''5 1'', ''junk'', [], ''6 0 9'', ''  7 0  '', ''x 1'', ''9 1'']"
  have f: "files sample_host ''mixed.thr'' = Text ?ls"
    by (simp add: sample_host_def sample_files_def)
  have pts: "List.map_filter (line_point sample_host) ?ls
      = [(Fin 5, Fin 1), (Fin 7, Fin 0), (Fin 9, Fin 1)]"
    by (simp add: List.map_filter_def line_point_def sample_parse_defs)
  have "parse_theta_rho_file sample_host ''mixed.thr''
      = normalize_coordinates sample_host (List.map_filter (line_point sample_host) ?ls)"
    using malformed_line_tolerance [OF f sample_rejects_hash] by (rule conjunct1)
  then have "parse_theta_rho_file sample_host ''mixed.thr''
      = [(Fin 0, Fin 1), (Fin 2, Fin 0), (Fin 4, Fin 1)]"
    unfolding pts by (simp add: normalize_coordinates_def sample_host_def)
  then show ?thesis using pts by simp
qed

subsection \<open>Scheduler and control plane\<close>

text \<open>
  C9. Without a schedule window \<open>schedule_checker\<close> changes nothing. With the window
  \<open>(a, b)\<close> and the time of day \<open>t\<close>, after the call \<open>pause_requested\<close> is false if
  \<open>a \<le> t < b\<close>, and the waiters are notified, and it is true otherwise; a second call
  at the same time leaves the globals as the first one did.
\<close>

theorem schedule_gate:
  "schedule_checker None t g = g
   \<and> pause_requested (globals (schedule_checker (Some (a, b)) t g)) = (\<not> (a \<le> t \<and> t < b))
   \<and> trace (schedule_checker (Some (a, b)) t g)
       = trace g @ [if a \<le> t \<and> t < b then NotifyAll else SpawnWaiter]
   \<and> globals (schedule_checker (Some (a, b)) t (schedule_checker (Some (a, b)) t g))
       = globals (schedule_checker (Some (a, b)) t g)"
  by (simp add: schedule_checker_def emit_def)

text \<open>
  C10. \<open>stop_execution\<close> is defined on every state; calling it twice gives the globals
  that calling it once gives: \<open>stop_requested\<close> true, \<open>pause_requested\<close> false, no
  current file, progress, playlist or index, \<open>is_clearing\<close> false; and each call
  notifies the waiters and then the StateReporter.
\<close>

theorem stop_execution_idempotent:
  "globals (stop_execution (stop_execution g)) = globals (stop_execution g)
   \<and> globals (stop_execution g)
       = \<lparr>stop_requested = True, pause_requested = False, current_playing_file = None,
          execution_progress = None, current_playing_index = None,
          current_playlist = None, is_clearing = False\<rparr>
   \<and> trace (stop_execution g)
       = trace g @ [NotifyAll, MqttUpdate (globals (stop_execution g))]"
  by (simp add: stop_execution_def update_mqtt_state_def get_execution_status_def emit_def Let_def)

subsection \<open>Traces and the streaming loop\<close>

lemma calls_append [simp]: "calls (xs @ ys) = calls xs @ calls ys"
  by (induction xs rule: calls.induct) auto

lemma calls_emit: "calls (trace (emit e g)) = calls (trace g) @ calls [e]"
  by (simp add: emit_def)

lemma globals_emit [simp]: "globals (emit e g) = globals g"
  by (simp add: emit_def)

lemma clock_emit [simp]: "clock (emit e g) = clock g"
  by (simp add: emit_def)

lemma calls_update_mqtt [simp]: "calls (trace (update_mqtt_state g)) = calls (trace g)"
  by (simp add: update_mqtt_state_def calls_emit)

lemma globals_update_mqtt [simp]: "globals (update_mqtt_state g) = globals g"
  by (simp add: update_mqtt_state_def)

lemma calls_apply_control [simp]: "calls (trace (apply_control c g)) = calls (trace g)"
  by (cases c)
     (simp_all add: stop_execution_def pause_execution_def resume_execution_def
        wait_for_start_time_def Let_def calls_emit)

lemma calls_fold_control [simp]:
  "calls (trace (fold apply_control cs g)) = calls (trace g)"
  by (induction cs arbitrary: g) simp_all

lemma calls_pass_time [simp]: "calls (trace (pass_time it g)) = calls (trace g)"
  by (simp add: pass_time_def)

lemma calls_schedule_checker [simp]:
  "calls (trace (schedule_checker sh t g)) = calls (trace g)"
  by (simp add: schedule_checker_def calls_emit split: option.splits prod.splits)

lemma calls_set_progress [simp]: "calls (trace (set_progress p g)) = calls (trace g)"
  by (simp add: set_progress_def)

lemma pass_time_quiet [simp]: "pass_time (quiet v) g = g\<lparr>clock := 0\<rparr>"
  by (simp add: pass_time_def quiet_def)

lemma outcome_quiet [simp]: "outcome (quiet v) = Returns v"
  by (simp add: quiet_def)

lemma send_batches_stopped:
  "stop_requested (globals g) \<Longrightarrow> send_batches sh cs idxs g sc = Next g sc"
  by (cases idxs) simp_all

lemma send_batches_first:
  "\<not> stop_requested (globals g) \<Longrightarrow> \<not> pause_requested (globals g) \<Longrightarrow>
   send_batches sh cs (0 # rest) g sc =
     (case transport (SendBatch (take batch_size cs)) g sc of
        Next g2 sc2 \<Rightarrow> send_batches sh cs rest (set_progress (batch_size, length cs) g2) sc2
      | Raised g2 sc2 \<Rightarrow> Raised g2 sc2
      | Blocked g2 \<Rightarrow> Blocked g2)"
  by (simp add: pause_gate_def split: step.splits)

lemma send_batches_later:
  "\<not> stop_requested (globals g) \<Longrightarrow> \<not> pause_requested (globals g) \<Longrightarrow> 0 < i \<Longrightarrow>
   send_batches sh cs (i # rest) g sc =
     (case handshake sh (take batch_size (drop i cs)) (i + batch_size, length cs) g sc of
        Next g2 sc2 \<Rightarrow> send_batches sh cs rest g2 sc2
      | Raised g2 sc2 \<Rightarrow> Raised g2 sc2
      | Blocked g2 \<Rightarrow> Blocked g2)"
  by (simp add: pause_gate_def)

subsection \<open>SingleFileRunner\<close>

lemma file_none_control:
  "current_playing_file (globals g) = None
     \<Longrightarrow> current_playing_file (globals (apply_control c g)) = None"
  by (cases c)
     (simp_all add: stop_execution_def pause_execution_def resume_execution_def
        wait_for_start_time_def Let_def)

lemma file_none_fold:
  "current_playing_file (globals g) = None
     \<Longrightarrow> current_playing_file (globals (fold apply_control cs g)) = None"
  by (induction cs arbitrary: g) (simp_all add: file_none_control)

lemma calls_intrude [simp]: "calls (trace (intrude g)) = calls (trace g)"
  by (simp add: intrude_def split: list.splits)

lemma file_none_intrude:
  "current_playing_file (globals g) = None
     \<Longrightarrow> current_playing_file (globals (intrude g)) = None"
  by (simp add: intrude_def file_none_fold split: list.splits)

lemma intrude_no_intrusions [simp]: "intrusions g = [] \<Longrightarrow> intrude g = g"
  by (simp add: intrude_def)

lemma calls_clear_current [simp]: "calls (trace (clear_current g)) = calls (trace g)"
  by (simp add: clear_current_def Let_def)

lemma cleared_clear_current [simp]:
  "current_playing_file (globals (clear_current g)) = None"
  "execution_progress (globals (clear_current g)) = None"
  by (simp_all add: clear_current_def Let_def file_none_intrude)

text \<open>
  A missing file and a file that cannot be opened parse to the empty pattern. For every
  pattern with fewer than 2 points \<open>run_theta_rho_file\<close> returns without a Transport
  call, with no current file and no progress.
\<close>

lemma failed_open_parses_empty:
  "files h file_path = FileNotFound \<or> files h file_path = ReadFails []
     \<Longrightarrow> parse_theta_rho_file h file_path = []"
  by (auto simp: parse_theta_rho_file_def)

lemma short_pattern_rejected:
  "length (parse_theta_rho_file h file_path) < 2 \<Longrightarrow>
   \<exists>g'. run_theta_rho_file h file_path sh g sc = Next g' sc
      \<and> calls (trace g') = calls (trace g)
      \<and> current_playing_file (globals g') = None
      \<and> execution_progress (globals g') = None"
  by (simp add: run_theta_rho_file_def Let_def)

text \<open>
  C7 says that every unreadable file parses to the empty pattern, so that the run is
  rejected. The reading of \<open>torn.thr\<close> raises after the lines \<open>5 1\<close> and \<open>6 1\<close> were
  delivered: the \<open>except Exception\<close> branch returns the two points read so far, as they
  were read, and \<open>run_theta_rho_file\<close> sends them to the device.
\<close>

theorem failed_read_returns_partial:
  "files sample_host ''torn.thr'' = ReadFails (with_newlines [''5 1'', ''6 1''])
   \<and> parse_theta_rho_file sample_host ''torn.thr'' = [(Fin 5, Fin 1), (Fin 6, Fin 1)]
   \<and> (case run_theta_rho_file sample_host ''torn.thr'' None fresh [] of
        Blocked g \<Rightarrow> calls (trace g) = [SendBatch [(Fin 5, Fin 1), (Fin 6, Fin 1)]]
      | Raised g sc \<Rightarrow> False
      | Next g sc \<Rightarrow> False)"
  by (simp add: sample_parse_defs run_theta_rho_file_def stream_pattern_def range_step_def
        batch_size_def pause_gate_def fresh_def idle_def set_progress_def Let_def
        update_mqtt_state_def get_execution_status_def emit_def)

lemma parse_five:
  "parse_theta_rho_file sample_host ''five.thr''
     = [(Fin 0, Fin 1), (Fin 1, Fin 1), (Fin 2, Fin 1), (Fin 3, Fin 1), (Fin 4, Fin 1)]"
  by (simp add: sample_parse_defs)

text \<open>
  C3 says that after the first batch the progress is \<open>(min(10, total), total)\<close>. The code
  assigns \<open>(i + batch_size, total_coordinates)\<close>: for the 5 points of \<open>five.thr\<close> the
  run that has sent its only batch and is blocked in \<open>reset_theta\<close> reports the
  progress \<open>(10, 5)\<close>.
\<close>

theorem first_batch_progress_overshoots:
  "length (parse_theta_rho_file sample_host ''five.thr'') = 5
   \<and> (case run_theta_rho_file sample_host ''five.thr'' None fresh [quiet ''ok''] of
        Blocked g \<Rightarrow>
          execution_progress (globals g) = Some (10, 5)
          \<and> calls (trace g)
              = [SendBatch (parse_theta_rho_file sample_host ''five.thr''), ResetTheta]
      | Raised g sc \<Rightarrow> False
      | Next g sc \<Rightarrow> False)"
  by (simp add: parse_five run_theta_rho_file_def stream_pattern_def range_step_def
        batch_size_def pause_gate_def fresh_def idle_def set_progress_def Let_def
        update_mqtt_state_def get_execution_status_def emit_def)

lemma transport_quiet:
  "transport c g (quiet v # sc) = Next ((emit (Transport c) g)\<lparr>clock := 0\<rparr>) sc"
  by simp

lemma handshake_quiet_blocked:
  "\<forall>r\<in>set ns. r \<noteq> ''R'' \<Longrightarrow>
   \<exists>g'. handshake None batch pr g (map quiet ns) = Blocked g'
        \<and> globals g' = globals g
        \<and> calls (trace g') = calls (trace g) @ replicate (Suc (length ns)) Poll"
proof (induction ns arbitrary: g)
  case Nil
  show ?case by (simp add: schedule_checker_def calls_emit)
next
  case (Cons r ns)
  let ?g2 = "(emit (Transport Poll) g)\<lparr>clock := 0\<rparr>"
  from Cons.prems have r: "r \<noteq> ''R''" and rest: "\<forall>r\<in>set ns. r \<noteq> ''R''" by simp_all
  obtain g' where g': "handshake None batch pr ?g2 (map quiet ns) = Blocked g'"
    "globals g' = globals ?g2"
    "calls (trace g') = calls (trace ?g2) @ replicate (Suc (length ns)) Poll"
    using Cons.IH [OF rest, of ?g2] by blast
  have "handshake None batch pr g (map quiet (r # ns)) = Blocked g'"
    using r g'(1) by (simp add: schedule_checker_def)
  moreover have "calls (trace ?g2) = calls (trace g) @ [Poll]"
    by (simp add: emit_def)
  ultimately show ?case using g'(2,3) by simp
qed

lemma handshake_quiet_acked:
  "\<forall>r\<in>set ns. r \<noteq> ''R'' \<Longrightarrow>
   \<exists>g'. handshake None batch pr g (map quiet ns @ quiet ''R'' # quiet v # rest) = Next g' rest
        \<and> globals g' = (globals g)\<lparr>execution_progress := Some pr\<rparr>
        \<and> calls (trace g')
            = calls (trace g) @ replicate (Suc (length ns)) Poll @ [SendBatch batch]"
proof (induction ns arbitrary: g)
  case Nil
  show ?case
    by (simp add: schedule_checker_def set_progress_def emit_def)
next
  case (Cons r ns)
  let ?g2 = "(emit (Transport Poll) g)\<lparr>clock := 0\<rparr>"
  from Cons.prems have r: "r \<noteq> ''R''" and rest: "\<forall>r\<in>set ns. r \<noteq> ''R''" by simp_all
  obtain g' where g':
    "handshake None batch pr ?g2 (map quiet ns @ quiet ''R'' # quiet v # rest) = Next g' rest"
    "globals g' = (globals ?g2)\<lparr>execution_progress := Some pr\<rparr>"
    "calls (trace g')
       = calls (trace ?g2) @ replicate (Suc (length ns)) Poll @ [SendBatch batch]"
    using Cons.IH [OF rest, of ?g2] by blast
  have "handshake None batch pr g (map quiet (r # ns) @ quiet ''R'' # quiet v # rest)
      = Next g' rest"
    using r g'(1) by (simp add: schedule_checker_def)
  moreover have "calls (trace ?g2) = calls (trace g) @ [Poll]"
    by (simp add: emit_def)
  ultimately show ?case using g'(2,3) by simp
qed

declare send_batches.simps [simp del]

lemma first_sent:
  assumes "\<not> stop_requested (globals g)" "\<not> pause_requested (globals g)"
  shows "\<exists>g'. send_batches sh cs (0 # idxs) g (quiet v # sc) = send_batches sh cs idxs g' sc
     \<and> globals g' = (globals g)\<lparr>execution_progress := Some (batch_size, length cs)\<rparr>
     \<and> calls (trace g') = calls (trace g) @ [SendBatch (take batch_size cs)]"
  using assms
  by (intro exI [of _ "set_progress (batch_size, length cs)
        ((emit (Transport (SendBatch (take batch_size cs))) g)\<lparr>clock := 0\<rparr>)"])
     (simp add: send_batches_first set_progress_def emit_def)

lemma later_blocked:
  assumes "\<not> stop_requested (globals g)" "\<not> pause_requested (globals g)" "0 < i"
    and "\<forall>r\<in>set ns. r \<noteq> ''R''"
  shows "\<exists>g'. send_batches None cs (i # idxs) g (map quiet ns) = Blocked g'
     \<and> globals g' = globals g
     \<and> calls (trace g') = calls (trace g) @ replicate (Suc (length ns)) Poll"
proof -
  obtain g' where "handshake None (take batch_size (drop i cs)) (i + batch_size, length cs) g
      (map quiet ns) = Blocked g'"
    "globals g' = globals g"
    "calls (trace g') = calls (trace g) @ replicate (Suc (length ns)) Poll"
    using handshake_quiet_blocked [OF assms(4)] by blast
  then show ?thesis using assms(1-3) by (simp add: send_batches_later)
qed

lemma later_acked:
  assumes "\<not> stop_requested (globals g)" "\<not> pause_requested (globals g)" "0 < i"
    and "\<forall>r\<in>set ns. r \<noteq> ''R''"
  shows "\<exists>g'. send_batches None cs (i # idxs) g (map quiet ns @ quiet ''R'' # quiet v # sc)
         = send_batches None cs idxs g' sc
     \<and> globals g' = (globals g)\<lparr>execution_progress := Some (i + batch_size, length cs)\<rparr>
     \<and> calls (trace g') = calls (trace g) @ replicate (Suc (length ns)) Poll
           @ [SendBatch (take batch_size (drop i cs))]"
proof -
  obtain g' where "handshake None (take batch_size (drop i cs)) (i + batch_size, length cs) g
      (map quiet ns @ quiet ''R'' # quiet v # sc) = Next g' sc"
    "globals g' = (globals g)\<lparr>execution_progress := Some (i + batch_size, length cs)\<rparr>"
    "calls (trace g') = calls (trace g) @ replicate (Suc (length ns)) Poll
           @ [SendBatch (take batch_size (drop i cs))]"
    using handshake_quiet_acked [OF assms(4)] by blast
  then show ?thesis using assms(1-3)
    by (intro exI [of _ g']) (simp add: send_batches_later)
qed

lemma range_step_25: "range_step 25 batch_size = [0, 10, 20]"
  by (simp add: range_step_def batch_size_def upt_rec)

lemma run_long_pattern:
  assumes "2 \<le> length (parse_theta_rho_file h file_path)"
  shows "run_theta_rho_file h file_path sh g sc =
     (case stream_pattern sh (parse_theta_rho_file h file_path)
             (update_mqtt_state
                (g\<lparr>globals := (globals g)\<lparr>stop_requested := False,
                     current_playing_file := Some file_path,
                     execution_progress := Some (0, 0)\<rparr>\<rparr>)) sc of
        Next g2 sc2 \<Rightarrow> Next (clear_current g2) sc2
      | Raised g2 sc2 \<Rightarrow> Next (clear_current g2) sc2
      | Blocked g2 \<Rightarrow> Blocked g2)"
  using assms by (simp add: run_theta_rho_file_def Let_def)

lemma stream_pattern_unfold:
  "stream_pattern sh cs g sc =
     (case send_batches sh cs (range_step (length cs) batch_size)
             (set_progress (0, length cs) g) sc of
        Next g2 sc2 \<Rightarrow>
          (case transport ResetTheta g2 sc2 of
             Next g3 sc3 \<Rightarrow> transport (SendCommand ''FINISHED'') g3 sc3
           | Raised g3 sc3 \<Rightarrow> Raised g3 sc3
           | Blocked g3 \<Rightarrow> Blocked g3)
      | Raised g2 sc2 \<Rightarrow> Raised g2 sc2
      | Blocked g2 \<Rightarrow> Blocked g2)"
  by (simp add: stream_pattern_def Let_def)


lemma send_batches_nil [simp]: "send_batches sh cs [] g sc = Next g sc"
  by (simp add: send_batches.simps)

lemma three_batches:
  assumes len: "length cs = 25"
    and ns: "\<not> stop_requested (globals g)" and np: "\<not> pause_requested (globals g)"
    and n1: "\<forall>r\<in>set ns1. r \<noteq> ''R''"
    and n2: "\<forall>r\<in>set ns2. r \<noteq> ''R''"
  shows "\<exists>g1. send_batches None cs [0, 10, 20] g (quiet v1 # map quiet ns1) = Blocked g1
           \<and> globals g1 = (globals g)\<lparr>execution_progress := Some (10, 25)\<rparr>
           \<and> calls (trace g1) = calls (trace g) @ [SendBatch (take 10 cs)]
               @ replicate (Suc (length ns1)) Poll"
    and "\<exists>g2. send_batches None cs [0, 10, 20] g
             (quiet v1 # map quiet ns1 @ quiet ''R'' # quiet v2 # map quiet ns2) = Blocked g2
           \<and> globals g2 = (globals g)\<lparr>execution_progress := Some (20, 25)\<rparr>
           \<and> calls (trace g2) = calls (trace g) @ [SendBatch (take 10 cs)]
               @ replicate (Suc (length ns1)) Poll @ [SendBatch (take 10 (drop 10 cs))]
               @ replicate (Suc (length ns2)) Poll"
    and "\<exists>g3. send_batches None cs [0, 10, 20] g
             (quiet v1 # map quiet ns1 @ quiet ''R'' # quiet v2 # map quiet ns2
                @ quiet ''R'' # quiet v3 # rest) = Next g3 rest
           \<and> globals g3 = (globals g)\<lparr>execution_progress := Some (30, 25)\<rparr>
           \<and> calls (trace g3) = calls (trace g) @ [SendBatch (take 10 cs)]
               @ replicate (Suc (length ns1)) Poll @ [SendBatch (take 10 (drop 10 cs))]
               @ replicate (Suc (length ns2)) Poll @ [SendBatch (drop 20 cs)]"
proof -
  have first: "\<exists>ga. send_batches None cs [0, 10, 20] g (quiet v1 # sc)
        = send_batches None cs [10, 20] ga sc
      \<and> globals ga = (globals g)\<lparr>execution_progress := Some (10, 25)\<rparr>
      \<and> calls (trace ga) = calls (trace g) @ [SendBatch (take 10 cs)]" for sc
    using first_sent [OF ns np, of None cs "[10, 20]" v1 sc] len
    by (simp add: batch_size_def)
  have second: "\<exists>gb. send_batches None cs [10, 20] ga
          (map quiet ns1 @ quiet ''R'' # quiet v2 # sc) = send_batches None cs [20] gb sc
      \<and> globals gb = (globals g)\<lparr>execution_progress := Some (20, 25)\<rparr>
      \<and> calls (trace gb) = calls (trace ga) @ replicate (Suc (length ns1)) Poll
           @ [SendBatch (take 10 (drop 10 cs))]"
    if "globals ga = (globals g)\<lparr>execution_progress := Some (10, 25)\<rparr>" for ga sc
  proof -
    have "\<not> stop_requested (globals ga)" "\<not> pause_requested (globals ga)"
      using that ns np by simp_all
    from later_acked [OF this _ n1, of 10 cs "[20]" v2 sc] show ?thesis
      using that len by (simp add: batch_size_def)
  qed
  show "\<exists>g1. send_batches None cs [0, 10, 20] g (quiet v1 # map quiet ns1) = Blocked g1
           \<and> globals g1 = (globals g)\<lparr>execution_progress := Some (10, 25)\<rparr>
           \<and> calls (trace g1) = calls (trace g) @ [SendBatch (take 10 cs)]
               @ replicate (Suc (length ns1)) Poll"
  proof -
    obtain ga where ga: "send_batches None cs [0, 10, 20] g (quiet v1 # map quiet ns1)
        = send_batches None cs [10, 20] ga (map quiet ns1)"
      "globals ga = (globals g)\<lparr>execution_progress := Some (10, 25)\<rparr>"
      "calls (trace ga) = calls (trace g) @ [SendBatch (take 10 cs)]"
      using first by blast
    have "\<not> stop_requested (globals ga)" "\<not> pause_requested (globals ga)"
      using ga(2) ns np by simp_all
    from later_blocked [OF this _ n1, of 10 cs "[20]"] ga show ?thesis by auto
  qed
  show "\<exists>g2. send_batches None cs [0, 10, 20] g
             (quiet v1 # map quiet ns1 @ quiet ''R'' # quiet v2 # map quiet ns2) = Blocked g2
           \<and> globals g2 = (globals g)\<lparr>execution_progress := Some (20, 25)\<rparr>
           \<and> calls (trace g2) = calls (trace g) @ [SendBatch (take 10 cs)]
               @ replicate (Suc (length ns1)) Poll @ [SendBatch (take 10 (drop 10 cs))]
               @ replicate (Suc (length ns2)) Poll"
  proof -
    obtain ga where ga: "send_batches None cs [0, 10, 20] g
          (quiet v1 # map quiet ns1 @ quiet ''R'' # quiet v2 # map quiet ns2)
        = send_batches None cs [10, 20] ga
          (map quiet ns1 @ quiet ''R'' # quiet v2 # map quiet ns2)"
      "globals ga = (globals g)\<lparr>execution_progress := Some (10, 25)\<rparr>"
      "calls (trace ga) = calls (trace g) @ [SendBatch (take 10 cs)]"
      using first by blast
    obtain gb where gb: "send_batches None cs [10, 20] ga
          (map quiet ns1 @ quiet ''R'' # quiet v2 # map quiet ns2)
        = send_batches None cs [20] gb (map quiet ns2)"
      "globals gb = (globals g)\<lparr>execution_progress := Some (20, 25)\<rparr>"
      "calls (trace gb) = calls (trace ga) @ replicate (Suc (length ns1)) Poll
           @ [SendBatch (take 10 (drop 10 cs))]"
      using second [OF ga(2)] by blast
    have "\<not> stop_requested (globals gb)" "\<not> pause_requested (globals gb)"
      using gb(2) ns np by simp_all
    from later_blocked [OF this _ n2, of 20 cs "[]"] ga gb show ?thesis by auto
  qed
  show "\<exists>g3. send_batches None cs [0, 10, 20] g
             (quiet v1 # map quiet ns1 @ quiet ''R'' # quiet v2 # map quiet ns2
                @ quiet ''R'' # quiet v3 # rest) = Next g3 rest
           \<and> globals g3 = (globals g)\<lparr>execution_progress := Some (30, 25)\<rparr>
           \<and> calls (trace g3) = calls (trace g) @ [SendBatch (take 10 cs)]
               @ replicate (Suc (length ns1)) Poll @ [SendBatch (take 10 (drop 10 cs))]
               @ replicate (Suc (length ns2)) Poll @ [SendBatch (drop 20 cs)]"
  proof -
    let ?tail = "map quiet ns2 @ quiet ''R'' # quiet v3 # rest"
    obtain ga where ga: "send_batches None cs [0, 10, 20] g
          (quiet v1 # map quiet ns1 @ quiet ''R'' # quiet v2 # ?tail)
        = send_batches None cs [10, 20] ga (map quiet ns1 @ quiet ''R'' # quiet v2 # ?tail)"
      "globals ga = (globals g)\<lparr>execution_progress := Some (10, 25)\<rparr>"
      "calls (trace ga) = calls (trace g) @ [SendBatch (take 10 cs)]"
      using first by blast
    obtain gb where gb: "send_batches None cs [10, 20] ga
          (map quiet ns1 @ quiet ''R'' # quiet v2 # ?tail)
        = send_batches None cs [20] gb ?tail"
      "globals gb = (globals g)\<lparr>execution_progress := Some (20, 25)\<rparr>"
      "calls (trace gb) = calls (trace ga) @ replicate (Suc (length ns1)) Poll
           @ [SendBatch (take 10 (drop 10 cs))]"
      using second [OF ga(2)] by blast
    have "\<not> stop_requested (globals gb)" "\<not> pause_requested (globals gb)"
      using gb(2) ns np by simp_all
    from later_acked [OF this _ n2, of 20 cs "[]" v3 rest]
    obtain gc where gc: "send_batches None cs [20] gb ?tail = Next gc rest"
      "globals gc = (globals gb)\<lparr>execution_progress := Some (30, 25)\<rparr>"
      "calls (trace gc) = calls (trace gb) @ replicate (Suc (length ns2)) Poll
           @ [SendBatch (drop 20 cs)]"
      using len by (auto simp: batch_size_def)
    show ?thesis using ga gb gc by (intro exI [of _ gc]) simp
  qed
qed

lemma run_25:
  assumes len: "length (parse_theta_rho_file h file_path) = 25"
  shows "run_theta_rho_file h file_path sh g sc =
     (case (case send_batches sh (parse_theta_rho_file h file_path) [0, 10, 20]
                  (set_progress (0, 25)
                     (update_mqtt_state
                        (g\<lparr>globals := (globals g)\<lparr>stop_requested := False,
                             current_playing_file := Some file_path,
                             execution_progress := Some (0, 0)\<rparr>\<rparr>))) sc of
        Next g2 sc2 \<Rightarrow>
          (case transport ResetTheta g2 sc2 of
             Next g3 sc3 \<Rightarrow> transport (SendCommand ''FINISHED'') g3 sc3
           | Raised g3 sc3 \<Rightarrow> Raised g3 sc3
           | Blocked g3 \<Rightarrow> Blocked g3)
      | Raised g2 sc2 \<Rightarrow> Raised g2 sc2
      | Blocked g2 \<Rightarrow> Blocked g2) of
        Next g2 sc2 \<Rightarrow> Next (clear_current g2) sc2
      | Raised g2 sc2 \<Rightarrow> Next (clear_current g2) sc2
      | Blocked g2 \<Rightarrow> Blocked g2)"
  using len range_step_25 by (simp add: run_long_pattern stream_pattern_unfold)

text \<open>
  C1. For every pattern of exactly 25 points, run with no schedule window, not paused,
  with no control-plane call during the run and a Transport that returns: the first
  batch (the first 10 points) is sent before any poll; while the device answers the
  poll \<open>R\<close> with anything but \<open>R\<close>, the run polls again, sends no batch and leaves the
  progress at \<open>(10, 25)\<close>; after the answer \<open>R\<close> it sends the second batch (the next 10
  points) and the progress is \<open>(20, 25)\<close>, and the same holds for the third batch (the
  last 5 points); the run then calls \<open>reset_theta\<close> and \<open>send_command("FINISHED")\<close> and
  returns: exactly 3 batches were sent, in pattern order.
\<close>

theorem batch_handshake:
  assumes len: "length (parse_theta_rho_file h file_path) = 25"
    and np: "\<not> pause_requested (globals g)"
    and n1: "\<forall>r\<in>set ns1. r \<noteq> ''R''"
    and n2: "\<forall>r\<in>set ns2. r \<noteq> ''R''"
  shows "(\<exists>g1. run_theta_rho_file h file_path None g (quiet v1 # map quiet ns1) = Blocked g1
           \<and> execution_progress (globals g1) = Some (10, 25)
           \<and> calls (trace g1) = calls (trace g)
               @ [SendBatch (take 10 (parse_theta_rho_file h file_path))]
               @ replicate (Suc (length ns1)) (SendCommand ''R''))
    \<and> (\<exists>g2. run_theta_rho_file h file_path None g
             (quiet v1 # map quiet ns1 @ quiet ''R'' # quiet v2 # map quiet ns2) = Blocked g2
           \<and> execution_progress (globals g2) = Some (20, 25)
           \<and> calls (trace g2) = calls (trace g)
               @ [SendBatch (take 10 (parse_theta_rho_file h file_path))]
               @ replicate (Suc (length ns1)) (SendCommand ''R'')
               @ [SendBatch (take 10 (drop 10 (parse_theta_rho_file h file_path)))]
               @ replicate (Suc (length ns2)) (SendCommand ''R''))
    \<and> (\<exists>g3. run_theta_rho_file h file_path None g
             (quiet v1 # map quiet ns1 @ quiet ''R'' # quiet v2 # map quiet ns2
                @ quiet ''R'' # quiet v3 # quiet v4 # quiet v5 # rest) = Next g3 rest
           \<and> current_playing_file (globals g3) = None
           \<and> execution_progress (globals g3) = None
           \<and> calls (trace g3) = calls (trace g)
               @ [SendBatch (take 10 (parse_theta_rho_file h file_path))]
               @ replicate (Suc (length ns1)) (SendCommand ''R'')
               @ [SendBatch (take 10 (drop 10 (parse_theta_rho_file h file_path)))]
               @ replicate (Suc (length ns2)) (SendCommand ''R'')
               @ [SendBatch (drop 20 (parse_theta_rho_file h file_path)),
                  ResetTheta, SendCommand ''FINISHED''])"
proof -
  let ?cs = "parse_theta_rho_file h file_path"
  let ?g0 = "set_progress (0, 25)
     (update_mqtt_state
        (g\<lparr>globals := (globals g)\<lparr>stop_requested := False,
             current_playing_file := Some file_path,
             execution_progress := Some (0, 0)\<rparr>\<rparr>))"
  have s0: "\<not> stop_requested (globals ?g0)" "\<not> pause_requested (globals ?g0)"
    using np by (simp_all add: set_progress_def)
  have c0: "calls (trace ?g0) = calls (trace g)" by simp
  note tb = three_batches [OF len s0 n1 n2]
  have "\<exists>g1. run_theta_rho_file h file_path None g (quiet v1 # map quiet ns1) = Blocked g1
           \<and> execution_progress (globals g1) = Some (10, 25)
           \<and> calls (trace g1) = calls (trace g) @ [SendBatch (take 10 ?cs)]
               @ replicate (Suc (length ns1)) (SendCommand ''R'')"
  proof -
    obtain g1 where "send_batches None ?cs [0, 10, 20] ?g0 (quiet v1 # map quiet ns1)
          = Blocked g1"
        "globals g1 = (globals ?g0)\<lparr>execution_progress := Some (10, 25)\<rparr>"
        "calls (trace g1) = calls (trace ?g0) @ [SendBatch (take 10 ?cs)]
               @ replicate (Suc (length ns1)) Poll"
      using tb(1) by blast
    then show ?thesis
      unfolding c0 by (intro exI [of _ g1]) (simp add: run_25 [OF len])
  qed
  moreover
  have "\<exists>g2. run_theta_rho_file h file_path None g
             (quiet v1 # map quiet ns1 @ quiet ''R'' # quiet v2 # map quiet ns2) = Blocked g2
           \<and> execution_progress (globals g2) = Some (20, 25)
           \<and> calls (trace g2) = calls (trace g) @ [SendBatch (take 10 ?cs)]
               @ replicate (Suc (length ns1)) (SendCommand ''R'')
               @ [SendBatch (take 10 (drop 10 ?cs))]
               @ replicate (Suc (length ns2)) (SendCommand ''R'')"
  proof -
    obtain g2 where "send_batches None ?cs [0, 10, 20] ?g0
            (quiet v1 # map quiet ns1 @ quiet ''R'' # quiet v2 # map quiet ns2) = Blocked g2"
        "globals g2 = (globals ?g0)\<lparr>execution_progress := Some (20, 25)\<rparr>"
        "calls (trace g2) = calls (trace ?g0) @ [SendBatch (take 10 ?cs)]
               @ replicate (Suc (length ns1)) Poll @ [SendBatch (take 10 (drop 10 ?cs))]
               @ replicate (Suc (length ns2)) Poll"
      using tb(2) by blast
    then show ?thesis
      unfolding c0 by (intro exI [of _ g2]) (simp add: run_25 [OF len])
  qed
  moreover
  have "\<exists>g3. run_theta_rho_file h file_path None g
             (quiet v1 # map quiet ns1 @ quiet ''R'' # quiet v2 # map quiet ns2
                @ quiet ''R'' # quiet v3 # quiet v4 # quiet v5 # rest) = Next g3 rest
           \<and> current_playing_file (globals g3) = None
           \<and> execution_progress (globals g3) = None
           \<and> calls (trace g3) = calls (trace g) @ [SendBatch (take 10 ?cs)]
               @ replicate (Suc (length ns1)) (SendCommand ''R'')
               @ [SendBatch (take 10 (drop 10 ?cs))]
               @ replicate (Suc (length ns2)) (SendCommand ''R'')
               @ [SendBatch (drop 20 ?cs), ResetTheta, SendCommand ''FINISHED'']"
  proof -
    obtain g3 where g3: "send_batches None ?cs [0, 10, 20] ?g0
            (quiet v1 # map quiet ns1 @ quiet ''R'' # quiet v2 # map quiet ns2
                @ quiet ''R'' # quiet v3 # quiet v4 # quiet v5 # rest)
            = Next g3 (quiet v4 # quiet v5 # rest)"
        "globals g3 = (globals ?g0)\<lparr>execution_progress := Some (30, 25)\<rparr>"
        "calls (trace g3) = calls (trace ?g0) @ [SendBatch (take 10 ?cs)]
               @ replicate (Suc (length ns1)) Poll @ [SendBatch (take 10 (drop 10 ?cs))]
               @ replicate (Suc (length ns2)) Poll @ [SendBatch (drop 20 ?cs)]"
      using tb(3) [of v1 v2 v3 "quiet v4 # quiet v5 # rest"] by blast
    let ?g4 = "clear_current
       ((emit (Transport (SendCommand ''FINISHED''))
           ((emit (Transport ResetTheta) g3)\<lparr>clock := 0\<rparr>))\<lparr>clock := 0\<rparr>)"
    have "run_theta_rho_file h file_path None g
             (quiet v1 # map quiet ns1 @ quiet ''R'' # quiet v2 # map quiet ns2
                @ quiet ''R'' # quiet v3 # quiet v4 # quiet v5 # rest) = Next ?g4 rest"
      using g3(1) by (simp add: run_25 [OF len])
    moreover have "calls (trace ?g4) = calls (trace g3) @ [ResetTheta, SendCommand ''FINISHED'']"
      by (simp add: emit_def)
    moreover have "current_playing_file (globals ?g4) = None"
      "execution_progress (globals ?g4) = None"
      by simp_all
    ultimately show ?thesis
      using g3(3) unfolding c0 by (intro exI [of _ ?g4]) simp
  qed
  ultimately show ?thesis by blast
qed

lemma parse_long:
  "parse_theta_rho_file sample_host ''long.thr'' = map (\<lambda>k. (Fin (real k), Fin 1)) [0..<25]"
  by (simp add: sample_parse_defs upt_rec)

text \<open>\<open>long.thr\<close> has 25 points; the device answers \<open>busy\<close>, an empty reply and \<open>r\<close>
  before it answers \<open>R\<close>.\<close>

theorem batch_handshake_witness:
  "length (parse_theta_rho_file sample_host ''long.thr'') = 25
   \<and> drop 20 (parse_theta_rho_file sample_host ''long.thr'')
       = [(Fin 20, Fin 1), (Fin 21, Fin 1), (Fin 22, Fin 1), (Fin 23, Fin 1), (Fin 24, Fin 1)]
   \<and> (\<exists>g3. run_theta_rho_file sample_host ''long.thr'' None fresh
             (quiet ''ok'' # map quiet [''busy'', ''''] @ quiet ''R'' # quiet ''ok''
                # map quiet [''r''] @ quiet ''R'' # quiet ''ok'' # quiet ''ok''
                # quiet ''ok'' # []) = Next g3 []
         \<and> calls (trace g3) =
             [SendBatch (take 10 (parse_theta_rho_file sample_host ''long.thr'')),
              SendCommand ''R'', SendCommand ''R'', SendCommand ''R'',
              SendBatch (take 10 (drop 10 (parse_theta_rho_file sample_host ''long.thr''))),
              SendCommand ''R'', SendCommand ''R'',
              SendBatch (drop 20 (parse_theta_rho_file sample_host ''long.thr'')),
              ResetTheta, SendCommand ''FINISHED''])"
proof -
  have len: "length (parse_theta_rho_file sample_host ''long.thr'') = 25"
    by (simp add: parse_long)
  have np: "\<not> pause_requested (globals fresh)" by (simp add: fresh_def idle_def)
  have n1: "\<forall>r\<in>set [''busy'', '''']. r \<noteq> ''R''" by simp
  have n2: "\<forall>r\<in>set [''r'']. r \<noteq> ''R''" by simp
  have d: "drop 20 (parse_theta_rho_file sample_host ''long.thr'')
       = [(Fin 20, Fin 1), (Fin 21, Fin 1), (Fin 22, Fin 1), (Fin 23, Fin 1), (Fin 24, Fin 1)]"
    by (simp add: parse_long drop_map upt_rec)
  have "\<exists>g3. run_theta_rho_file sample_host ''long.thr'' None fresh
             (quiet ''ok'' # map quiet [''busy'', ''''] @ quiet ''R'' # quiet ''ok''
                # map quiet [''r''] @ quiet ''R'' # quiet ''ok'' # quiet ''ok''
                # quiet ''ok'' # []) = Next g3 []
           \<and> current_playing_file (globals g3) = None
           \<and> execution_progress (globals g3) = None
           \<and> calls (trace g3) = calls (trace fresh)
               @ [SendBatch (take 10 (parse_theta_rho_file sample_host ''long.thr''))]
               @ replicate (Suc (length [''busy'', ''''])) (SendCommand ''R'')
               @ [SendBatch (take 10 (drop 10 (parse_theta_rho_file sample_host ''long.thr'')))]
               @ replicate (Suc (length [''r''])) (SendCommand ''R'')
               @ [SendBatch (drop 20 (parse_theta_rho_file sample_host ''long.thr'')),
                  ResetTheta, SendCommand ''FINISHED'']"
    using batch_handshake [OF len np n1 n2, of "''ok''" "''ok''" "''ok''" "''ok''" "''ok''" "[]"]
    by blast
  then obtain g3 where "run_theta_rho_file sample_host ''long.thr'' None fresh
             (quiet ''ok'' # map quiet [''busy'', ''''] @ quiet ''R'' # quiet ''ok''
                # map quiet [''r''] @ quiet ''R'' # quiet ''ok'' # quiet ''ok''
                # quiet ''ok'' # []) = Next g3 []"
      "calls (trace g3) = calls (trace fresh)
               @ [SendBatch (take 10 (parse_theta_rho_file sample_host ''long.thr''))]
               @ replicate (Suc (length [''busy'', ''''])) (SendCommand ''R'')
               @ [SendBatch (take 10 (drop 10 (parse_theta_rho_file sample_host ''long.thr'')))]
               @ replicate (Suc (length [''r''])) (SendCommand ''R'')
               @ [SendBatch (drop 20 (parse_theta_rho_file sample_host ''long.thr'')),
                  ResetTheta, SendCommand ''FINISHED'']"
    by blast
  then have "run_theta_rho_file sample_host ''long.thr'' None fresh
             (quiet ''ok'' # map quiet [''busy'', ''''] @ quiet ''R'' # quiet ''ok''
                # map quiet [''r''] @ quiet ''R'' # quiet ''ok'' # quiet ''ok''
                # quiet ''ok'' # []) = Next g3 []
         \<and> calls (trace g3) =
             [SendBatch (take 10 (parse_theta_rho_file sample_host ''long.thr'')),
              SendCommand ''R'', SendCommand ''R'', SendCommand ''R'',
              SendBatch (take 10 (drop 10 (parse_theta_rho_file sample_host ''long.thr''))),
              SendCommand ''R'', SendCommand ''R'',
              SendBatch (drop 20 (parse_theta_rho_file sample_host ''long.thr'')),
              ResetTheta, SendCommand ''FINISHED'']"
    by (simp add: fresh_def)
  then show ?thesis using len d by blast
qed

subsection \<open>Stop requests and the handshake\<close>





lemma stop_schedule_checker [simp]:
  "stop_requested (globals (schedule_checker sh t g)) = stop_requested (globals g)"
  by (simp add: schedule_checker_def split: option.splits prod.splits)

lemma progress_set_progress [simp]:
  "globals (set_progress p g) = (globals g)\<lparr>execution_progress := Some p\<rparr>"
  by (simp add: set_progress_def)




lemmas run_defs =
  run_theta_rho_file_def stream_pattern_def range_step_def batch_size_def pause_gate_def
  send_batches.simps set_progress_def clear_current_def update_mqtt_state_def
  get_execution_status_def emit_def pass_time_def quiet_def stopping_def
  schedule_checker_def stop_execution_def Let_def fresh_def idle_def upt_rec intrude_def
  watched_def



subsection \<open>The invariant of ExecutionState\<close>





lemma streaming_clock [simp]: "streaming (g\<lparr>clock := t\<rparr>) = streaming g"
  by (simp add: streaming_def)




lemma no_stop_Cons [simp]:
  "no_stop (it # sc) = (Stop \<notin> set (during it) \<and> no_stop sc)"
  by (simp add: no_stop_def)

lemma no_stop_Nil [simp]: "no_stop []"
  by (simp add: no_stop_def)

















subsection \<open>PlaylistRunner\<close>

text \<open>No step of \<open>run_theta_rho_file\<close> adds a Transport call of the playlist runner.\<close>

lemma own_append [simp]: "own_calls (xs @ ys) = own_calls xs @ own_calls ys"
  by (induction xs rule: own_calls.induct) auto

lemma own_emit: "own_calls (trace (emit e g)) = own_calls (trace g) @ own_calls [e]"
  by (simp add: emit_def)

lemma own_update_mqtt [simp]: "own_calls (trace (update_mqtt_state g)) = own_calls (trace g)"
  by (simp add: update_mqtt_state_def own_emit)

lemma own_apply_control [simp]: "own_calls (trace (apply_control c g)) = own_calls (trace g)"
  by (cases c)
     (simp_all add: stop_execution_def pause_execution_def resume_execution_def
        wait_for_start_time_def Let_def own_emit)

lemma own_fold_control [simp]:
  "own_calls (trace (fold apply_control cs g)) = own_calls (trace g)"
  by (induction cs arbitrary: g) simp_all

lemma own_pass_time [simp]: "own_calls (trace (pass_time it g)) = own_calls (trace g)"
  by (simp add: pass_time_def)

lemma own_schedule_checker [simp]:
  "own_calls (trace (schedule_checker sh t g)) = own_calls (trace g)"
  by (simp add: schedule_checker_def own_emit split: option.splits prod.splits)

lemma own_set_progress [simp]: "own_calls (trace (set_progress p g)) = own_calls (trace g)"
  by (simp add: set_progress_def)

lemma own_intrude [simp]: "own_calls (trace (intrude g)) = own_calls (trace g)"
  by (simp add: intrude_def split: list.splits)

lemma own_clear_current [simp]: "own_calls (trace (clear_current g)) = own_calls (trace g)"
  by (simp add: clear_current_def Let_def)

lemma own_transport:
  "own_calls (trace (engine_of (transport c g sc))) = own_calls (trace g)"
  by (cases sc) (simp_all add: own_emit split: reply.splits)

lemma own_sleep:
  "own_calls (trace (engine_of (sleep t g sc))) = own_calls (trace g)"
  by (cases sc) (simp_all add: own_emit)

lemma own_waiting:
  "own_calls (trace (engine_of (waiting g sc))) = own_calls (trace g)"
  by (induction sc arbitrary: g) (simp_all add: Let_def)

lemma own_pause_gate:
  "own_calls (trace (engine_of (pause_gate g sc))) = own_calls (trace g)"
  by (simp add: pause_gate_def own_waiting)

lemma own_handshake:
  "own_calls (trace (engine_of (handshake sh batch pr g sc))) = own_calls (trace g)"
proof (induction sc arbitrary: g)
  case Nil
  show ?case by (simp add: own_emit)
next
  case (Cons it sc)
  let ?g2 = "pass_time it (emit (Transport Poll) (schedule_checker sh (clock g) g))"
  have g2: "own_calls (trace ?g2) = own_calls (trace g)" by (simp add: own_emit)
  have t: "own_calls (trace (engine_of (transport (SendBatch batch) ?g2 sc)))
      = own_calls (trace g)"
    using g2 by (simp add: own_transport)
  show ?case
  proof (cases "outcome it")
    case Raises
    with g2 show ?thesis by (simp add: Let_def)
  next
    case (Returns response)
    show ?thesis
    proof (cases "response = ''R''")
      case True
      with Returns t show ?thesis
        by (cases "transport (SendBatch batch) ?g2 sc") (simp_all add: Let_def)
    next
      case False
      with Returns Cons.IH [of ?g2] g2 show ?thesis by (simp add: Let_def)
    qed
  qed
qed

lemma own_send_batches:
  "own_calls (trace (engine_of (send_batches sh cs idxs g sc))) = own_calls (trace g)"
proof (induction idxs arbitrary: g sc)
  case Nil
  show ?case by simp
next
  case (Cons i idxs)
  show ?case
  proof (cases "stop_requested (globals g)")
    case True
    then show ?thesis by (simp add: send_batches_stopped)
  next
    case False
    have pg: "own_calls (trace (engine_of (pause_gate g sc))) = own_calls (trace g)"
      by (rule own_pause_gate)
    show ?thesis
    proof (cases "pause_gate g sc")
      case (Blocked b)
      with pg False show ?thesis by (simp add: send_batches.simps)
    next
      case (Raised b sc1)
      with pg False show ?thesis by (simp add: send_batches.simps)
    next
      case (Next g1 sc1)
      with pg have g1: "own_calls (trace g1) = own_calls (trace g)" by simp
      show ?thesis
      proof (cases "i = 0")
        case True
        have "own_calls (trace (engine_of
            (transport (SendBatch (take batch_size (drop i cs))) g1 sc1)))
            = own_calls (trace g)"
          using g1 by (simp add: own_transport)
        then show ?thesis
          using False Next True Cons.IH
          by (cases "transport (SendBatch (take batch_size (drop i cs))) g1 sc1")
             (simp_all add: send_batches.simps Let_def)
      next
        case nz: False
        have "own_calls (trace (engine_of
            (handshake sh (take batch_size (drop i cs)) (i + batch_size, length cs) g1 sc1)))
            = own_calls (trace g)"
          using g1 by (simp add: own_handshake)
        then show ?thesis
          using False Next nz Cons.IH
          by (cases "handshake sh (take batch_size (drop i cs)) (i + batch_size, length cs)
                g1 sc1")
             (simp_all add: send_batches.simps Let_def)
      qed
    qed
  qed
qed

lemma own_stream_pattern:
  "own_calls (trace (engine_of (stream_pattern sh cs g sc))) = own_calls (trace g)"
proof -
  let ?sb = "send_batches sh cs (range_step (length cs) batch_size)
      (set_progress (0, length cs) g) sc"
  have sb: "own_calls (trace (engine_of ?sb)) = own_calls (trace g)"
    by (simp add: own_send_batches)
  show ?thesis
  proof (cases ?sb)
    case (Blocked b)
    with sb show ?thesis by (simp add: stream_pattern_unfold)
  next
    case (Raised b sc1)
    with sb show ?thesis by (simp add: stream_pattern_unfold)
  next
    case (Next g2 sc2)
    with sb have g2: "own_calls (trace g2) = own_calls (trace g)" by simp
    have r: "own_calls (trace (engine_of (transport ResetTheta g2 sc2))) = own_calls (trace g)"
      using g2 by (simp add: own_transport)
    show ?thesis
    proof (cases "transport ResetTheta g2 sc2")
      case (Blocked b)
      with r Next show ?thesis by (simp add: stream_pattern_unfold)
    next
      case (Raised b sc3)
      with r Next show ?thesis by (simp add: stream_pattern_unfold)
    next
      case n: (Next g3 sc3)
      with r have "own_calls (trace g3) = own_calls (trace g)" by simp
      then have "own_calls (trace (engine_of (transport (SendCommand ''FINISHED'') g3 sc3)))
          = own_calls (trace g)"
        by (simp add: own_transport)
      with Next n show ?thesis by (simp add: stream_pattern_unfold)
    qed
  qed
qed

lemma own_run:
  "own_calls (trace (engine_of (run_theta_rho_file h file_path sh g sc))) = own_calls (trace g)"
proof -
  let ?g1 = "update_mqtt_state
      (g\<lparr>globals := (globals g)\<lparr>stop_requested := False,
           current_playing_file := Some file_path,
           execution_progress := Some (0, 0)\<rparr>\<rparr>)"
  let ?sp = "stream_pattern sh (parse_theta_rho_file h file_path) ?g1 sc"
  have sp: "own_calls (trace (engine_of ?sp)) = own_calls (trace g)"
    by (simp add: own_stream_pattern)
  show ?thesis
    using sp by (cases ?sp) (simp_all add: run_theta_rho_file_def Let_def)
qed

lemma play_item_stop_return:
  "play_item h choice pause_time clear_pattern sh n entry g sc = StopReturn g' sc'
     \<Longrightarrow> stop_requested (globals g')"
  by (auto simp: play_item_def Let_def
        split: prod.splits option.splits step.splits if_splits)

lemma play_items_stop_return:
  "play_items h choices pause_time clear_pattern sh n entries g sc = StopReturn g' sc'
     \<Longrightarrow> stop_requested (globals g')"
proof (induction entries arbitrary: g sc)
  case Nil
  then show ?case by simp
next
  case (Cons entry entries)
  then show ?case
    by (auto split: pass.splits dest: play_item_stop_return)
qed

lemma own_play_item:
  "own_calls (trace (pass_engine
      (play_item h choice pause_time clear_pattern sh n entry g sc))) = own_calls (trace g)"
proof -
  obtain idx path where entry: "entry = (idx, path)" by (cases entry)
  let ?g1 = "schedule_checker sh (clock g)
      (g\<lparr>globals := (globals g)\<lparr>current_playing_index := Some idx\<rparr>\<rparr>)"
  let ?clear = "(case clear_pattern of
        None \<Rightarrow> Next ?g1 sc
      | Some pattern_name \<Rightarrow>
          if pattern_name = [] then Next ?g1 sc
          else
            (case run_theta_rho_file h (get_clear_pattern_file choice pattern_name) sh
                    (?g1\<lparr>globals := (globals ?g1)\<lparr>is_clearing := True\<rparr>\<rparr>) sc of
               Next g2 sc2 \<Rightarrow>
                 Next (g2\<lparr>globals := (globals g2)\<lparr>is_clearing := False\<rparr>\<rparr>) sc2
             | Raised g2 sc2 \<Rightarrow> Raised g2 sc2
             | Blocked g2 \<Rightarrow> Blocked g2))"
  have g1: "own_calls (trace ?g1) = own_calls (trace g)" by simp
  have clear: "own_calls (trace (engine_of ?clear)) = own_calls (trace g)"
  proof (cases clear_pattern)
    case None
    then show ?thesis by simp
  next
    case (Some pattern_name)
    let ?r = "run_theta_rho_file h (get_clear_pattern_file choice pattern_name) sh
        (?g1\<lparr>globals := (globals ?g1)\<lparr>is_clearing := True\<rparr>\<rparr>) sc"
    have "own_calls (trace (engine_of ?r)) = own_calls (trace g)"
      using own_run
        [of h "get_clear_pattern_file choice pattern_name" sh
            "?g1\<lparr>globals := (globals ?g1)\<lparr>is_clearing := True\<rparr>\<rparr>" sc]
      by simp
    then show ?thesis using Some by (cases ?r) simp_all
  qed
  show ?thesis
  proof (cases "stop_requested (globals ?g1)")
    case True
    then show ?thesis by (simp add: play_item_def entry Let_def)
  next
    case ns: False
    show ?thesis
    proof (cases ?clear)
      case (Blocked b)
      with clear ns show ?thesis by (simp add: play_item_def entry Let_def)
    next
      case (Raised b sc3)
      with clear ns show ?thesis by (simp add: play_item_def entry Let_def)
    next
      case (Next g3 sc3)
      with clear have g3: "own_calls (trace g3) = own_calls (trace g)" by simp
      let ?main = "(if \<not> stop_requested (globals g3)
          then run_theta_rho_file h path sh g3 sc3 else Next g3 sc3)"
      have main: "own_calls (trace (engine_of ?main)) = own_calls (trace g)"
        using g3 own_run [of h path sh g3 sc3] by simp
      show ?thesis
      proof (cases ?main)
        case (Blocked b)
        with main ns Next show ?thesis by (simp add: play_item_def entry Let_def)
      next
        case (Raised b sc4)
        with main ns Next show ?thesis by (simp add: play_item_def entry Let_def)
      next
        case m: (Next g4 sc4)
        with main have g4: "own_calls (trace g4) = own_calls (trace g)" by simp
        have sl: "own_calls (trace (engine_of (sleep pause_time g4 sc4))) = own_calls (trace g)"
          using g4 by (simp add: own_sleep)
        show ?thesis
          using ns Next m g4 sl
          by (cases "sleep pause_time g4 sc4") (simp_all add: play_item_def entry Let_def)
      qed
    qed
  qed
qed

lemma own_play_items:
  "own_calls (trace (pass_engine
      (play_items h choices pause_time clear_pattern sh n entries g sc))) = own_calls (trace g)"
proof (induction entries arbitrary: g sc)
  case Nil
  show ?case by simp
next
  case (Cons entry entries)
  let ?p = "play_item h (choices (fst entry)) pause_time clear_pattern sh n entry g sc"
  have "own_calls (trace (pass_engine ?p)) = own_calls (trace g)" by (rule own_play_item)
  then show ?case using Cons.IH by (cases ?p) simp_all
qed

lemma playlist_transport_next:
  "playlist_transport c g sc = Next g' sc' \<Longrightarrow>
   calls (trace g') = calls (trace g) @ [c] \<and> own_calls (trace g') = own_calls (trace g) @ [c]"
  by (cases sc) (auto simp: calls_emit own_emit split: reply.splits)

lemma playlist_loop_exit:
  "playlist_loop passes k h ch file_paths pause_time clear_pattern run_mode shuffle sh g sc
     = Returned how g' sc' \<Longrightarrow>
   (how = Completed \<longrightarrow>
      run_mode \<noteq> ''indefinite''
      \<and> own_calls (trace g') = own_calls (trace g) @ [ResetTheta, SendCommand ''FINISHED'']
      \<and> (\<exists>pre. calls (trace g') = pre @ [ResetTheta, SendCommand ''FINISHED'']))
   \<and> (how = Stopped \<longrightarrow>
        stop_requested (globals g') \<and> own_calls (trace g') = own_calls (trace g))"
proof (induction passes arbitrary: k file_paths g sc)
  case 0
  then show ?case by simp
next
  case (Suc passes)
  let ?pass = "play_items h (choice_at ch k) pause_time clear_pattern sh
      (length file_paths) (List.enumerate 0 file_paths) g sc"
  have own: "own_calls (trace (pass_engine ?pass)) = own_calls (trace g)"
    by (rule own_play_items)
  show ?case
  proof (cases ?pass)
    case (PassBlocked b)
    with Suc.prems show ?thesis by simp
  next
    case (StopReturn g1 sc1)
    then have "stop_requested (globals g1)" by (rule play_items_stop_return)
    moreover have "g1 = g'" "how = Stopped"
      using Suc.prems StopReturn by simp_all
    moreover have "own_calls (trace g1) = own_calls (trace g)"
      using own StopReturn by simp
    ultimately show ?thesis by simp
  next
    case (PassDone g1 sc1)
    then have g1: "own_calls (trace g1) = own_calls (trace g)" using own by simp
    show ?thesis
    proof (cases "run_mode = ''indefinite''")
      case True
      let ?sl = "(if pause_time > 0 then sleep pause_time g1 sc1 else Next g1 sc1)"
      have sl: "own_calls (trace (engine_of ?sl)) = own_calls (trace g)"
        using g1 by (simp add: own_sleep)
      show ?thesis
      proof (cases ?sl)
        case (Blocked b)
        with Suc.prems PassDone True show ?thesis by simp
      next
        case (Raised b sc2)
        with Suc.prems PassDone True show ?thesis by simp
      next
        case (Next g2 sc2)
        with sl have g2: "own_calls (trace g2) = own_calls (trace g)" by simp
        show ?thesis
        proof (cases shuffle)
          case sh: True
          let ?fp = "shuffle_at ch (Suc k) file_paths"
          let ?g3 = "g2\<lparr>globals := (globals g2)\<lparr>current_playlist :=
              map_option (\<lambda>l. ?fp) (current_playlist (globals g2))\<rparr>\<rparr>"
          have "playlist_loop passes (Suc k) h ch ?fp pause_time clear_pattern run_mode
              shuffle sh ?g3 sc2 = Returned how g' sc'"
            using Suc.prems PassDone True Next sh by (simp add: Let_def)
          from Suc.IH [OF this] g2 show ?thesis by simp
        next
          case nsh: False
          have "playlist_loop passes (Suc k) h ch file_paths pause_time clear_pattern
              run_mode shuffle sh g2 sc2 = Returned how g' sc'"
            using Suc.prems PassDone True Next nsh by simp
          from Suc.IH [OF this] g2 show ?thesis by simp
        qed
      qed
    next
      case False
      with Suc.prems PassDone obtain g2 sc2 where
        r: "playlist_transport ResetTheta g1 sc1 = Next g2 sc2"
        and f: "playlist_transport (SendCommand ''FINISHED'') g2 sc2 = Next g' sc'"
        and how: "how = Completed"
        by (auto split: step.splits)
      have "calls (trace g') = calls (trace g1) @ [ResetTheta, SendCommand ''FINISHED'']"
        "own_calls (trace g') = own_calls (trace g) @ [ResetTheta, SendCommand ''FINISHED'']"
        using playlist_transport_next [OF r] playlist_transport_next [OF f] g1 by simp_all
      with how False show ?thesis by blast
    qed
  qed
qed

lemma playlist_loop_single_pass:
  "run_mode \<noteq> ''indefinite'' \<Longrightarrow>
   playlist_loop (Suc passes) k h ch file_paths pause_time clear_pattern run_mode shuffle
     sh g sc \<noteq> StillLooping g' sc'"
  by (auto split: pass.splits step.splits)

text \<open>
  C4, amended. When \<open>run_theta_rho_files\<close> returns at the end of its body, which it
  reaches only in a run mode other than \<open>indefinite\<close>, it has made two Transport calls
  itself, \<open>reset_theta()\<close> and then \<open>send_command("FINISHED")\<close>, and they are the last
  two Transport calls of the run. When it returns at one of its tests of
  \<open>stop_requested\<close>, the flag is set and it has made no Transport call itself: every
  Transport call of the run was made by \<open>run_theta_rho_file\<close>. In a run mode other than
  \<open>indefinite\<close> one pass of the \<open>while\<close> loop is enough.
\<close>

theorem playlist_final_exit:
  "(run_theta_rho_files passes h ch file_paths pause_time clear_pattern run_mode shuffle
       sh g sc = Returned Completed g' sc'
      \<longrightarrow> run_mode \<noteq> ''indefinite''
          \<and> own_calls (trace g')
              = own_calls (trace g) @ [ResetTheta, SendCommand ''FINISHED'']
          \<and> (\<exists>pre. calls (trace g') = pre @ [ResetTheta, SendCommand ''FINISHED'']))
   \<and> (run_theta_rho_files passes h ch file_paths pause_time clear_pattern run_mode shuffle
       sh g sc = Returned Stopped g' sc'
      \<longrightarrow> stop_requested (globals g') \<and> own_calls (trace g') = own_calls (trace g))
   \<and> (run_mode \<noteq> ''indefinite'' \<and> 0 < passes
      \<longrightarrow> run_theta_rho_files passes h ch file_paths pause_time clear_pattern run_mode
            shuffle sh g sc \<noteq> StillLooping g' sc')"
proof -
  let ?fp = "if shuffle then shuffle_at ch 0 file_paths else file_paths"
  let ?g1 = "g\<lparr>globals := (globals g)\<lparr>stop_requested := False,
      current_playlist := Some ?fp\<rparr>\<rparr>"
  have run: "run_theta_rho_files passes h ch file_paths pause_time clear_pattern run_mode
      shuffle sh g sc
    = playlist_loop passes 0 h ch ?fp pause_time clear_pattern run_mode shuffle sh ?g1 sc"
    by (simp add: run_theta_rho_files_def Let_def)
  have own: "own_calls (trace ?g1) = own_calls (trace g)" by simp
  have a: "run_mode \<noteq> ''indefinite''
      \<and> own_calls (trace g') = own_calls (trace g) @ [ResetTheta, SendCommand ''FINISHED'']
      \<and> (\<exists>pre. calls (trace g') = pre @ [ResetTheta, SendCommand ''FINISHED''])"
    if "run_theta_rho_files passes h ch file_paths pause_time clear_pattern run_mode
      shuffle sh g sc = Returned Completed g' sc'"
    using playlist_loop_exit [of passes 0 h ch ?fp pause_time clear_pattern run_mode shuffle
        sh ?g1 sc Completed g' sc'] that
    unfolding run own by blast
  have b: "stop_requested (globals g') \<and> own_calls (trace g') = own_calls (trace g)"
    if "run_theta_rho_files passes h ch file_paths pause_time clear_pattern run_mode
      shuffle sh g sc = Returned Stopped g' sc'"
    using playlist_loop_exit [of passes 0 h ch ?fp pause_time clear_pattern run_mode shuffle
        sh ?g1 sc Stopped g' sc'] that
    unfolding run own by blast
  have c: "run_theta_rho_files passes h ch file_paths pause_time clear_pattern run_mode
      shuffle sh g sc \<noteq> StillLooping g' sc'"
    if "run_mode \<noteq> ''indefinite'' \<and> 0 < passes"
  proof -
    from that obtain p where "passes = Suc p" and "run_mode \<noteq> ''indefinite''"
      by (cases passes) auto
    then show ?thesis
      unfolding run using playlist_loop_single_pass by simp
  qed
  from a b c show ?thesis by blast
qed

lemma parse_absent: "parse_theta_rho_file sample_host ''absent.thr'' = []"
  by (simp add: sample_parse_defs)

lemma parse_missing: "parse_theta_rho_file sample_host ''missing.thr'' = []"
  by (simp add: sample_parse_defs)

lemmas playlist_defs =
  run_theta_rho_files_def play_item_def no_chance_def enumerate_eq_zip

text \<open>
  C4 as stated fails: a playlist of two files that do not exist, with a pause of 5
  seconds, stopped during the \<open>time.sleep\<close> between them, returns at the test of
  \<open>stop_requested\<close> without a single Transport call.
\<close>

theorem playlist_stop_counterexample:
  "(case run_theta_rho_files 1 sample_host no_chance [''absent.thr'', ''missing.thr''] 5
           None ''single'' False None fresh [stopping ''''] of
      Returned how g sc \<Rightarrow>
        how = Stopped \<and> calls (trace g) = [] \<and> sc = []
        \<and> filter (\<lambda>e. e = Sleep 5) (trace g) = [Sleep 5]
    | Waiting g \<Rightarrow> False
    | Failed g sc \<Rightarrow> False
    | StillLooping g sc \<Rightarrow> False)"
  by (simp add: playlist_defs parse_absent parse_missing run_defs numeral_2_eq_2)

text \<open>A playlist of the one file \<open>five.thr\<close> that completes, and the stopped playlist.\<close>

theorem playlist_final_exit_witness:
  "(\<exists>g'. run_theta_rho_files 1 sample_host no_chance [''five.thr''] 0 None ''single'' False
            None fresh [quiet ''ok'', quiet ''ok'', quiet ''ok'', quiet ''ok'', quiet ''ok'']
          = Returned Completed g' []
        \<and> own_calls (trace g') = [ResetTheta, SendCommand ''FINISHED'']
        \<and> (\<exists>pre. calls (trace g') = pre @ [ResetTheta, SendCommand ''FINISHED'']))
   \<and> (\<exists>g'. run_theta_rho_files 1 sample_host no_chance [''absent.thr'', ''missing.thr''] 5
            None ''single'' False None fresh [stopping '''']
          = Returned Stopped g' []
        \<and> stop_requested (globals g') \<and> own_calls (trace g') = [])"
proof -
  have "\<exists>g'. run_theta_rho_files 1 sample_host no_chance [''five.thr''] 0 None ''single'' False
            None fresh [quiet ''ok'', quiet ''ok'', quiet ''ok'', quiet ''ok'', quiet ''ok'']
          = Returned Completed g' []"
    by (simp add: playlist_defs parse_five run_defs)
  then obtain g1 where g1:
    "run_theta_rho_files 1 sample_host no_chance [''five.thr''] 0 None ''single'' False
            None fresh [quiet ''ok'', quiet ''ok'', quiet ''ok'', quiet ''ok'', quiet ''ok'']
          = Returned Completed g1 []"
    by blast
  have c: "own_calls (trace g1) = own_calls (trace fresh) @ [ResetTheta, SendCommand ''FINISHED'']
      \<and> (\<exists>pre. calls (trace g1) = pre @ [ResetTheta, SendCommand ''FINISHED''])"
    using playlist_final_exit
      [of 1 sample_host no_chance "[''five.thr'']" 0 None "''single''" False None fresh
          "[quiet ''ok'', quiet ''ok'', quiet ''ok'', quiet ''ok'', quiet ''ok'']" g1 "[]"]
      g1
    by blast
  have "\<exists>g'. run_theta_rho_files 1 sample_host no_chance [''absent.thr'', ''missing.thr''] 5
            None ''single'' False None fresh [stopping '''']
          = Returned Stopped g' []"
    by (simp add: playlist_defs parse_absent parse_missing run_defs numeral_2_eq_2)
  then obtain g2 where g2:
    "run_theta_rho_files 1 sample_host no_chance [''absent.thr'', ''missing.thr''] 5
            None ''single'' False None fresh [stopping '''']
          = Returned Stopped g2 []"
    by blast
  have s: "stop_requested (globals g2) \<and> own_calls (trace g2) = own_calls (trace fresh)"
    using playlist_final_exit
      [of 1 sample_host no_chance "[''absent.thr'', ''missing.thr'']" 5 None "''single''"
          False None fresh "[stopping '''']" g2 "[]"]
      g2
    by blast
  have f: "own_calls (trace fresh) = []" by (simp add: fresh_def)
  from g1 c g2 s f show ?thesis by auto
qed

end
